(* ===== verification/Prelude.thy ===== *)
theory Prelude
  imports Main "HOL-Library.Word" "HOL-Library.Monad_Syntax"
begin

text \<open>
  Shared ground of the development: the machine integers of the C code, the run monad and the
  checked accesses that every component uses, the collections of facts and the generic lemmas
  on lists, options and words.

  A C function is a HOL function into \<open>'a option\<close>. \<open>Some r\<close> is a run that returns \<open>r\<close>;
  \<open>None\<close> is a run with no defined continuation: an index outside its array, a null or never
  assigned pointer that is dereferenced, or a \<open>CLOG_ERROR\<close>/\<open>CLOG_ASSERT\<close> that stops the
  process. Error codes the C code returns are ordinary values (negative \<open>int\<close>s), never
  \<open>None\<close>.
\<close>

section \<open>Machine integers\<close>

type_synonym u8 = "8 word"
type_synonym u16 = "16 word"
type_synonym u32 = "32 word"
type_synonym u64 = "64 word"
type_synonym size_t = "64 word"
type_synonym StepId = "32 word"
type_synonym octets = "8 word list"

text \<open>The conversions the code writes as \<open>(int) x\<close> and \<open>(int8_t) x\<close>.\<close>

definition int_of_size :: "size_t \<Rightarrow> int" where
  "int_of_size x = sint (ucast x :: 32 word)"

definition int_of_step :: "StepId \<Rightarrow> int" where
  "int_of_step x = sint x"

definition int8_of_int :: "int \<Rightarrow> int" where
  "int8_of_int x = sint (word_of_int x :: 8 word)"

section \<open>Diagnostics\<close>

text \<open>
  The \<open>clog\<close> macros are not part of the repository. Their two builds are a parameter:
  with \<open>ClogOff\<close> they expand to nothing, with \<open>ClogFatal\<close> a \<open>CLOG_ERROR\<close> and a
  failed \<open>CLOG_ASSERT\<close> end the run. The purely informative macros (\<open>DEBUG\<close>, \<open>VERBOSE\<close>,
  \<open>NOTICE\<close>, \<open>WARN\<close>, \<open>INFO\<close>, \<open>SOFT_ERROR\<close>) write text only and are not modelled.
\<close>

datatype clog = ClogOff | ClogFatal

definition clogError :: "clog \<Rightarrow> unit option" where
  "clogError c = (case c of ClogOff \<Rightarrow> Some () | ClogFatal \<Rightarrow> None)"

definition clogErrorIf :: "clog \<Rightarrow> bool \<Rightarrow> unit option" where
  "clogErrorIf c b = (if b then clogError c else Some ())"

definition clogAssert :: "clog \<Rightarrow> bool \<Rightarrow> unit option" where
  "clogAssert c b = clogErrorIf c (\<not> b)"

section \<open>Checked access\<close>

definition readAt :: "'a list \<Rightarrow> nat \<Rightarrow> 'a option" where
  "readAt xs i = (if i < length xs then Some (xs ! i) else None)"

definition writeAt :: "'a list \<Rightarrow> nat \<Rightarrow> 'a \<Rightarrow> 'a list option" where
  "writeAt xs i v = (if i < length xs then Some (xs[i := v]) else None)"

definition modifyAt :: "'a list \<Rightarrow> nat \<Rightarrow> ('a \<Rightarrow> 'a) \<Rightarrow> 'a list option" where
  "modifyAt xs i f = do { x \<leftarrow> readAt xs i; writeAt xs i (f x) }"

text \<open>
  \<open>runAll\<close> is a \<open>for\<close> loop that applies one call to each value in turn; \<open>drain\<close> repeats a call
  that yields a value.
\<close>

primrec runAll :: "('s \<Rightarrow> 'a \<Rightarrow> 's option) \<Rightarrow> 's \<Rightarrow> 'a list \<Rightarrow> 's option" where
  "runAll f s [] = Some s"
| "runAll f s (x # xs) = do { s' \<leftarrow> f s x; runAll f s' xs }"

primrec drain :: "('s \<Rightarrow> ('a \<times> 's) option) \<Rightarrow> 's \<Rightarrow> nat \<Rightarrow> ('a list \<times> 's) option" where
  "drain f s 0 = Some ([], s)"
| "drain f s (Suc n) = do { (x, s') \<leftarrow> f s; (xs, s'') \<leftarrow> drain f s' n; Some (x # xs, s'') }"

section \<open>Collections and automation\<close>

named_theorems run_simps \<open>evaluation of checked accesses and diagnostics\<close>

lemma clogErrorIf_False [simp, run_simps]: "clogErrorIf c False = Some ()"
  by (simp add: clogErrorIf_def)

lemma clogErrorIf_Off [simp, run_simps]: "clogErrorIf ClogOff b = Some ()"
  by (simp add: clogErrorIf_def clogError_def)

lemma clogErrorIf_Fatal [simp, run_simps]: "clogErrorIf ClogFatal True = None"
  by (simp add: clogErrorIf_def clogError_def)

lemma clogErrorIf_Some: "clogErrorIf c b = Some u \<longleftrightarrow> c = ClogOff \<or> \<not> b"
  by (cases c) (auto simp: clogErrorIf_def clogError_def)

lemma clogAssert_True [simp, run_simps]: "clogAssert c True = Some ()"
  by (simp add: clogAssert_def)

lemma clogAssert_Off [simp, run_simps]: "clogAssert ClogOff b = Some ()"
  by (simp add: clogAssert_def)

lemma clogAssert_Fatal [simp, run_simps]: "clogAssert ClogFatal False = None"
  by (simp add: clogAssert_def)

lemma clogAssert_Some: "clogAssert c b = Some u \<longleftrightarrow> c = ClogOff \<or> b"
  by (simp add: clogAssert_def clogErrorIf_Some)

lemma readAt_in [simp, run_simps]: "i < length xs \<Longrightarrow> readAt xs i = Some (xs ! i)"
  by (simp add: readAt_def)

lemma readAt_out [simp, run_simps]: "length xs \<le> i \<Longrightarrow> readAt xs i = None"
  by (simp add: readAt_def)

lemma readAt_Some: "readAt xs i = Some x \<longleftrightarrow> i < length xs \<and> x = xs ! i"
  by (auto simp: readAt_def)

lemma writeAt_in [simp, run_simps]: "i < length xs \<Longrightarrow> writeAt xs i v = Some (xs[i := v])"
  by (simp add: writeAt_def)

lemma writeAt_out [simp, run_simps]: "length xs \<le> i \<Longrightarrow> writeAt xs i v = None"
  by (simp add: writeAt_def)

lemma writeAt_Some: "writeAt xs i v = Some ys \<longleftrightarrow> i < length xs \<and> ys = xs[i := v]"
  by (auto simp: writeAt_def)

lemma modifyAt_in [simp, run_simps]:
  "i < length xs \<Longrightarrow> modifyAt xs i f = Some (xs[i := f (xs ! i)])"
  by (simp add: modifyAt_def)

lemma modifyAt_Some: "modifyAt xs i f = Some ys \<longleftrightarrow> i < length xs \<and> ys = xs[i := f (xs ! i)]"
  by (auto simp: modifyAt_def bind_eq_Some_conv readAt_Some writeAt_Some)

lemmas run_Some = bind_eq_Some_conv clogErrorIf_Some clogAssert_Some readAt_Some writeAt_Some
  modifyAt_Some

lemma runAll_append: "runAll f s (xs @ ys) = do { s' \<leftarrow> runAll f s xs; runAll f s' ys }"
  by (induction xs arbitrary: s) (auto split: Option.bind_splits)

section \<open>Searches\<close>

text \<open>The first of the \<open>n\<close> positions from \<open>i\<close> on that satisfies \<open>P\<close>: what the search loops compute.\<close>

fun firstFrom :: "(nat \<Rightarrow> bool) \<Rightarrow> nat \<Rightarrow> nat \<Rightarrow> nat option" where
  "firstFrom P i 0 = None"
| "firstFrom P i (Suc n) = (if P i then Some i else firstFrom P (Suc i) n)"

lemma firstFrom_None: "firstFrom P i n = None \<longleftrightarrow> (\<forall>j. i \<le> j \<and> j < i + n \<longrightarrow> \<not> P j)"
proof (induction n arbitrary: i)
  case 0
  then show ?case by auto
next
  case (Suc n)
  have "i \<le> j \<and> j < i + Suc n \<longleftrightarrow> j = i \<or> Suc i \<le> j \<and> j < Suc i + n" for j by presburger
  then have "(\<forall>j. i \<le> j \<and> j < i + Suc n \<longrightarrow> \<not> P j) \<longleftrightarrow> \<not> P i \<and> (\<forall>j. Suc i \<le> j \<and> j < Suc i + n \<longrightarrow> \<not> P j)"
    by (simp, blast)
  also have "\<dots> \<longleftrightarrow> \<not> P i \<and> firstFrom P (Suc i) n = None" unfolding Suc.IH ..
  finally show ?case by simp
qed

lemma firstFrom_Some:
  "firstFrom P i n = Some j \<Longrightarrow> i \<le> j \<and> j < i + n \<and> P j \<and> (\<forall>k. i \<le> k \<and> k < j \<longrightarrow> \<not> P k)"
proof (induction n arbitrary: i)
  case (Suc n)
  show ?case
  proof (cases "P i")
    case False
    with Suc.prems have "firstFrom P (Suc i) n = Some j" by simp
    from Suc.IH [OF this] have ih: "Suc i \<le> j" "j < Suc i + n" "P j" "\<forall>k. Suc i \<le> k \<and> k < j \<longrightarrow> \<not> P k"
      by blast+
    have "\<not> P k" if "i \<le> k" "k < j" for k
    proof (cases "k = i")
      case False
      with that have "Suc i \<le> k \<and> k < j" by simp
      with ih(4) show ?thesis by blast
    qed (use \<open>\<not> P i\<close> in simp)
    moreover have "i \<le> j" "j < i + Suc n" using ih(1,2) by simp_all
    ultimately show ?thesis using ih(3) by blast
  next
    case True
    with Suc.prems have "j = i" by simp
    with True show ?thesis by (auto dest: leD)
  qed
qed simp

lemma firstFrom_cong: "\<forall>j. i \<le> j \<and> j < i + n \<longrightarrow> P j = Q j \<Longrightarrow> firstFrom P i n = firstFrom Q i n"
proof (induction n arbitrary: i)
  case (Suc n)
  have "\<forall>j. Suc i \<le> j \<and> j < Suc i + n \<longrightarrow> P j = Q j" using Suc.prems by auto
  from Suc.IH [OF this] have "firstFrom P (Suc i) n = firstFrom Q (Suc i) n" .
  moreover have "P i = Q i" using Suc.prems by simp
  ultimately show ?case by simp
qed simp

lemma firstFrom_unique:
  assumes "i \<le> j" "j < i + n" "P j" "\<And>k. i \<le> k \<Longrightarrow> k < j \<Longrightarrow> \<not> P k"
  shows "firstFrom P i n = Some j"
proof (cases "firstFrom P i n")
  case None
  with assms(1-3) show ?thesis by (auto simp: firstFrom_None)
next
  case (Some k)
  note f = firstFrom_Some [OF this]
  then have "\<not> j < k" using assms(1,3) by blast
  moreover have "\<not> k < j" using f assms(4) by blast
  ultimately have "k = j" by simp
  with Some show ?thesis by simp
qed

section \<open>Words\<close>

lemma unat_add_no_wrap:
  "unat (a :: 'n::len word) + unat b < 2 ^ LENGTH('n) \<Longrightarrow> unat (a + b) = unat a + unat b"
  by (rule unat_add_lem [THEN iffD1])

lemma unat_inc: "unat a + 1 < 2 ^ LENGTH('n) \<Longrightarrow> unat (a + 1 :: 'n::len word) = unat a + 1"
  by (cases "LENGTH('n) = 1") (simp_all add: unat_word_ariths)

lemma unat_size_of_nat [simp]: "n < 2 ^ 64 \<Longrightarrow> unat (of_nat n :: size_t) = n"
  by (simp add: unat_of_nat)

lemma unat_u8_bound [simp]: "unat (x :: u8) < 256"
  using unsigned_less [of x, where 'a = nat] by simp

lemma unat_ucast_u8 [simp]: "unat (ucast (x :: u8) :: size_t) = unat x"
  by (simp add: unsigned_ucast_eq take_bit_nat_eq_self less_trans [OF unat_u8_bound])

lemma unat_u8_of_nat [simp]: "n < 256 \<Longrightarrow> unat (of_nat n :: u8) = n"
  by (simp add: unat_of_nat take_bit_nat_eq_self)

lemma u8_less_size [simp]: "(n :: size_t) \<le> ucast (x :: u8) \<longleftrightarrow> unat n \<le> unat x"
  by (simp add: word_le_nat_alt)

lemma int_of_size_small:
  assumes "uint (x :: size_t) < 2 ^ 31"
  shows "int_of_size x = uint x"
proof -
  have "int_of_size x = signed_take_bit 31 (uint x)"
    by (simp add: int_of_size_def signed_ucast_eq)
  also have "\<dots> = uint x"
    using assms by (intro signed_take_bit_int_eq_self) (auto intro: order_trans [of _ 0])
  finally show ?thesis .
qed

lemma sint_size_small:
  assumes "uint (x :: size_t) < 2 ^ 63"
  shows "sint x = uint x"
proof -
  have "sint x = signed_take_bit 63 (uint x)" by (simp add: sint_uint)
  also have "\<dots> = uint x"
    using assms by (intro signed_take_bit_int_eq_self) (auto intro: order_trans [of _ 0])
  finally show ?thesis .
qed

end
