(* ===== verification/CircularBuffer.thy ===== *)
theory CircularBuffer
  imports Prelude
begin

text \<open>
  The ring of free identifiers: \<open>src/src/lib/circular_buffer.c\<close>. The record and the six
  operations follow the C code; \<open>cbContents\<close> reads the ring as the list of its entries, oldest
  first. The locale \<open>bounded_fifo\<close> is the contract the clients of the ring use.
\<close>

section \<open>State and operations\<close>

abbreviation NIMBLE_SERVER_CIRCULAR_BUFFER_SIZE :: size_t where
  "NIMBLE_SERVER_CIRCULAR_BUFFER_SIZE \<equiv> 64"

record NimbleServerCircularBuffer =
  cbData :: "u8 list"
  cbHead :: size_t
  cbTail :: size_t
  cbIsFull :: bool

definition nimbleServerCircularBufferInit ::
  "NimbleServerCircularBuffer \<Rightarrow> NimbleServerCircularBuffer" where
  "nimbleServerCircularBufferInit self = self\<lparr>cbHead := 0, cbTail := 0, cbIsFull := False\<rparr>"

definition nimbleServerCircularBufferWrite ::
  "clog \<Rightarrow> NimbleServerCircularBuffer \<Rightarrow> u8 \<Rightarrow> NimbleServerCircularBuffer option" where
  "nimbleServerCircularBufferWrite c self x = do {
     clogErrorIf c (cbIsFull self);
     d \<leftarrow> writeAt (cbData self) (unat (cbHead self)) x;
     let head = (cbHead self + 1) mod NIMBLE_SERVER_CIRCULAR_BUFFER_SIZE;
     Some (self\<lparr>cbData := d, cbHead := head, cbIsFull := (head = cbTail self)\<rparr>)
   }"

definition nimbleServerCircularBufferRead ::
  "clog \<Rightarrow> NimbleServerCircularBuffer \<Rightarrow> (u8 \<times> NimbleServerCircularBuffer) option" where
  "nimbleServerCircularBufferRead c self = do {
     clogErrorIf c (cbHead self = cbTail self \<and> \<not> cbIsFull self);
     x \<leftarrow> readAt (cbData self) (unat (cbTail self));
     Some (x, self\<lparr>cbTail := (cbTail self + 1) mod NIMBLE_SERVER_CIRCULAR_BUFFER_SIZE,
                   cbIsFull := False\<rparr>)
   }"

definition nimbleServerCircularBufferIsEmpty :: "NimbleServerCircularBuffer \<Rightarrow> bool" where
  "nimbleServerCircularBufferIsEmpty self = (cbHead self = cbTail self \<and> \<not> cbIsFull self)"

definition nimbleServerCircularBufferIsFull :: "NimbleServerCircularBuffer \<Rightarrow> bool" where
  "nimbleServerCircularBufferIsFull self = cbIsFull self"

definition nimbleServerCircularBufferCount :: "NimbleServerCircularBuffer \<Rightarrow> size_t" where
  "nimbleServerCircularBufferCount self =
     (if cbIsFull self then NIMBLE_SERVER_CIRCULAR_BUFFER_SIZE
      else if cbHead self \<ge> cbTail self then cbHead self - cbTail self
      else NIMBLE_SERVER_CIRCULAR_BUFFER_SIZE + cbHead self - cbTail self)"

section \<open>Abstraction and invariant\<close>

definition cbInvar :: "NimbleServerCircularBuffer \<Rightarrow> bool" where
  "cbInvar cb \<longleftrightarrow> length (cbData cb) = 64 \<and> unat (cbHead cb) < 64 \<and> unat (cbTail cb) < 64 \<and>
     (cbIsFull cb \<longrightarrow> cbHead cb = cbTail cb)"

definition cbLength :: "NimbleServerCircularBuffer \<Rightarrow> nat" where
  "cbLength cb =
     (if cbIsFull cb then 64 else (64 + unat (cbHead cb) - unat (cbTail cb)) mod 64)"

definition cbContents :: "NimbleServerCircularBuffer \<Rightarrow> u8 list" where
  "cbContents cb = map (\<lambda>i. cbData cb ! ((unat (cbTail cb) + i) mod 64)) [0..<cbLength cb]"

text \<open>A concrete ring, used to exercise the operations.\<close>

definition emptyRing :: NimbleServerCircularBuffer where
  "emptyRing = \<lparr>cbData = replicate 64 0, cbHead = 0, cbTail = 0, cbIsFull = False\<rparr>"

section \<open>The contract of a bounded queue\<close>

locale bounded_fifo =
  fixes enq :: "'q \<Rightarrow> 'a \<Rightarrow> 'q option"
    and deq :: "'q \<Rightarrow> ('a \<times> 'q) option"
    and contents :: "'q \<Rightarrow> 'a list"
    and invar :: "'q \<Rightarrow> bool"
    and bound :: nat
  assumes length_bound: "invar q \<Longrightarrow> length (contents q) \<le> bound"
    and enq_spec: "invar q \<Longrightarrow> length (contents q) < bound \<Longrightarrow>
      \<exists>q'. enq q x = Some q' \<and> invar q' \<and> contents q' = contents q @ [x]"
    and deq_spec: "invar q \<Longrightarrow> contents q = x # xs \<Longrightarrow>
      \<exists>q'. deq q = Some (x, q') \<and> invar q' \<and> contents q' = xs"
begin

lemma runAll_enq:
  "invar q \<Longrightarrow> length (contents q) + length xs \<le> bound \<Longrightarrow>
   \<exists>q'. runAll enq q xs = Some q' \<and> invar q' \<and> contents q' = contents q @ xs"
proof (induction xs arbitrary: q)
  case Nil
  then show ?case by simp
next
  case (Cons x xs)
  then obtain q1 where q1: "enq q x = Some q1" "invar q1" "contents q1 = contents q @ [x]"
    using enq_spec [of q x] by auto
  with Cons.prems(2) have "length (contents q1) + length xs \<le> bound" by simp
  with Cons.IH [OF q1(2)] q1 show ?case by auto
qed

lemma drain_deq:
  "invar q \<Longrightarrow> contents q = xs @ ys \<Longrightarrow>
   \<exists>q'. drain deq q (length xs) = Some (xs, q') \<and> invar q' \<and> contents q' = ys"
proof (induction xs arbitrary: q)
  case Nil
  then show ?case by simp
next
  case (Cons x xs)
  then obtain q1 where q1: "deq q = Some (x, q1)" "invar q1" "contents q1 = xs @ ys"
    using deq_spec [of q x "xs @ ys"] by auto
  with Cons.IH [OF q1(2,3)] show ?case by auto
qed

lemma enq_then_deq:
  assumes "invar q" "contents q = []" "length xs \<le> bound"
  shows "\<exists>q1 q2. runAll enq q xs = Some q1 \<and> drain deq q1 (length xs) = Some (xs, q2) \<and> contents q2 = []"
proof -
  from assms obtain q1 where q1: "runAll enq q xs = Some q1" "invar q1" "contents q1 = xs @ []"
    using runAll_enq [of q xs] by auto
  with drain_deq [OF q1(2,3)] show ?thesis by auto
qed

end

section \<open>The contract of a pool of identifiers\<close>

text \<open>
  \<open>idPool\<close> relates a queue of free identifiers to the set \<open>used\<close> of identifiers in use: the queue
  holds exactly the identifiers below the capacity that are not in use, each once.
\<close>

definition idPool :: "('q \<Rightarrow> bool) \<Rightarrow> ('q \<Rightarrow> 'a list) \<Rightarrow> ('a \<Rightarrow> nat) \<Rightarrow> nat \<Rightarrow> 'q \<Rightarrow> nat set \<Rightarrow> bool" where
  "idPool invar contents idOf capacity q used \<longleftrightarrow>
     invar q \<and> distinct (contents q) \<and> used \<subseteq> {0..<capacity} \<and>
     idOf ` set (contents q) = {0..<capacity} - used"

locale id_pool = bounded_fifo enq deq contents invar bound
  for enq :: "'q \<Rightarrow> 'a \<Rightarrow> 'q option"
    and deq :: "'q \<Rightarrow> ('a \<times> 'q) option"
    and contents :: "'q \<Rightarrow> 'a list"
    and invar :: "'q \<Rightarrow> bool"
    and bound :: nat +
  fixes idOf :: "'a \<Rightarrow> nat"
  assumes inj_idOf: "inj idOf"
begin

lemma pool_length:
  assumes "idPool invar contents idOf capacity q used"
  shows "length (contents q) = capacity - card used"
proof -
  have "length (contents q) = card (set (contents q))"
    using assms by (simp add: idPool_def distinct_card)
  also have "\<dots> = card (idOf ` set (contents q))"
    by (metis card_image inj_idOf inj_on_subset subset_UNIV)
  also have "\<dots> = card ({0..<capacity} - used)" using assms by (simp add: idPool_def)
  also have "\<dots> = capacity - card used"
    using assms by (metis card_Diff_subset card_atLeastLessThan diff_zero finite_atLeastLessThan
        finite_subset idPool_def)
  finally show ?thesis .
qed

lemma pool_alloc:
  assumes p: "idPool invar contents idOf capacity q used" and room: "card used < capacity"
  shows "\<exists>x q'. deq q = Some (x, q') \<and> idOf x < capacity \<and> idOf x \<notin> used \<and>
    idPool invar contents idOf capacity q' (insert (idOf x) used)"
proof -
  have "length (contents q) \<noteq> 0" using pool_length [OF p] room by simp
  then obtain x xs where xs: "contents q = x # xs" by (cases "contents q") auto
  from p have inv: "invar q" by (simp add: idPool_def)
  obtain q' where q': "deq q = Some (x, q')" "invar q'" "contents q' = xs"
    using deq_spec [OF inv xs] by blast
  have x: "idOf x < capacity" "idOf x \<notin> used" using p xs by (auto simp: idPool_def)
  have "x \<notin> set xs" using p xs by (simp add: idPool_def)
  then have "idOf ` set xs = idOf ` set (contents q) - {idOf x}"
    unfolding xs list.set image_insert by (simp add: inj_image_mem_iff [OF inj_idOf])
  also have "\<dots> = {0..<capacity} - insert (idOf x) used" using p by (auto simp: idPool_def)
  finally have "idPool invar contents idOf capacity q' (insert (idOf x) used)"
    using p x(1) xs q' by (simp add: idPool_def)
  with q' x show ?thesis by blast
qed

lemma pool_release:
  assumes p: "idPool invar contents idOf capacity q used" and x: "idOf x \<in> used"
    and cap: "capacity \<le> bound"
  shows "\<exists>q'. enq q x = Some q' \<and> idPool invar contents idOf capacity q' (used - {idOf x})"
proof -
  have "finite used" using p finite_subset by (auto simp: idPool_def)
  with x have "card used > 0" by (auto simp: card_gt_0_iff)
  moreover have "idOf x < capacity" using p x by (auto simp: idPool_def)
  ultimately have "length (contents q) < bound" using pool_length [OF p] cap by simp
  moreover from p have "invar q" by (simp add: idPool_def)
  ultimately obtain q' where q': "enq q x = Some q'" "invar q'" "contents q' = contents q @ [x]"
    using enq_spec by blast
  have "x \<notin> set (contents q)" using p x by (auto simp: idPool_def)
  moreover have "idOf ` set (contents q') = insert (idOf x) ({0..<capacity} - used)"
    using p q'(3) by (simp add: idPool_def)
  moreover have "\<dots> = {0..<capacity} - (used - {idOf x})" using \<open>idOf x < capacity\<close> by auto
  ultimately have "idPool invar contents idOf capacity q' (used - {idOf x})"
    using p q' by (auto simp: idPool_def)
  with q' show ?thesis by blast
qed

lemma pool_fill:
  assumes "invar q" "contents q = []" "length xs \<le> bound" "distinct xs"
    "idOf ` set xs = {0..<capacity} - used" "used \<subseteq> {0..<capacity}"
  shows "\<exists>q'. runAll enq q xs = Some q' \<and> contents q' = xs \<and>
    idPool invar contents idOf capacity q' used"
  using runAll_enq [of q xs] assms by (auto simp: idPool_def)

end

section \<open>The ring implements them\<close>

lemma ring_step [simp]:
  "unat h < 64 \<Longrightarrow> unat ((h + 1) mod 64 :: size_t) = (unat h + 1) mod 64"
  by (simp add: unat_mod unat_word_ariths)

lemma length_cbContents [simp]: "length (cbContents cb) = cbLength cb"
  by (simp add: cbContents_def)

lemma cbLength_le: "cbLength cb \<le> 64"
  by (simp add: cbLength_def less_imp_le)

lemma cbLength_full: "cbInvar cb \<Longrightarrow> cbLength cb = 64 \<longleftrightarrow> cbIsFull cb"
  by (auto simp: cbLength_def)

lemma ring_eq_iff: "unat (h :: size_t) < 64 \<Longrightarrow> (h + 1) mod 64 = t \<longleftrightarrow> (unat h + 1) mod 64 = unat t"
  by (metis ring_step word_unat_eq_iff)

lemma ring_size_write:
  fixes h t :: nat
  assumes "h < 64" "t < 64"
  shows "(if (h + 1) mod 64 = t then 64 else (64 + (h + 1) mod 64 - t) mod 64)
         = (64 + h - t) mod 64 + 1"
  using assms by (cases "h = 63"; cases "t \<le> h"; auto simp: mod_if)

lemma ring_size_read:
  fixes h t :: nat
  assumes "h < 64" "t < 64" "h \<noteq> t \<or> full" "full \<longrightarrow> h = t"
  shows "(64 + h - (t + 1) mod 64) mod 64 + 1 = (if full then 64 else (64 + h - t) mod 64)"
  using assms by (cases "t = 63"; cases "t \<le> h"; auto simp: mod_if)

lemma ring_hit:
  fixes h t i :: nat
  assumes "h < 64" "t < 64" "i \<le> (64 + h - t) mod 64"
  shows "(t + i) mod 64 = h \<longleftrightarrow> i = (64 + h - t) mod 64"
proof (cases "t \<le> h")
  case True
  with assms(1) have d: "(64 + h - t) mod 64 = h - t" by (simp add: mod_if)
  with assms True have "(t + i) mod 64 = t + i" by simp
  with d True show ?thesis by auto
next
  case False
  with assms(2) have d: "(64 + h - t) mod 64 = 64 + h - t" by simp
  with assms have "t + i < 128" by linarith
  then have "(t + i) mod 64 = (if t + i < 64 then t + i else t + i - 64)" by (simp add: mod_if)
  with d False assms show ?thesis by (auto split: if_splits)
qed

lemma cbWrite_spec:
  assumes inv: "cbInvar cb" and room: "cbLength cb < 64"
  shows "\<exists>cb'. nimbleServerCircularBufferWrite c cb x = Some cb' \<and> cbInvar cb' \<and>
    cbContents cb' = cbContents cb @ [x]"
proof -
  let ?h = "unat (cbHead cb)" and ?t = "unat (cbTail cb)"
  let ?cb' = "cb\<lparr>cbData := (cbData cb)[?h := x], cbHead := (cbHead cb + 1) mod 64,
                 cbIsFull := ((cbHead cb + 1) mod 64 = cbTail cb)\<rparr>"
  from room have nf: "\<not> cbIsFull cb" by (auto simp: cbLength_def)
  with inv have run: "nimbleServerCircularBufferWrite c cb x = Some ?cb'"
    by (simp add: nimbleServerCircularBufferWrite_def cbInvar_def Let_def)
  have inv': "cbInvar ?cb'" using inv by (simp add: cbInvar_def)
  have bnd: "?h < 64" "?t < 64" "length (cbData cb) = 64" using inv by (auto simp: cbInvar_def)
  have "cbLength ?cb' = (if (?h + 1) mod 64 = ?t then 64 else (64 + (?h + 1) mod 64 - ?t) mod 64)"
    using bnd(1) by (simp add: cbLength_def ring_eq_iff)
  also have "\<dots> = (64 + ?h - ?t) mod 64 + 1" by (rule ring_size_write [OF bnd(1,2)])
  finally have len: "cbLength ?cb' = cbLength cb + 1" using nf by (simp add: cbLength_def)
  have "cbContents ?cb' = cbContents cb @ [x]"
  proof (rule nth_equalityI)
    show "length (cbContents ?cb') = length (cbContents cb @ [x])" using len by simp
  next
    fix i assume "i < length (cbContents ?cb')"
    then have i: "i \<le> cbLength cb" using len by simp
    have cnt: "cbLength cb = (64 + ?h - ?t) mod 64" using nf by (simp add: cbLength_def)
    have hit: "(?t + i) mod 64 = ?h \<longleftrightarrow> i = cbLength cb"
      using ring_hit [OF bnd(1,2)] i unfolding cnt by blast
    show "cbContents ?cb' ! i = (cbContents cb @ [x]) ! i"
    proof (cases "i = cbLength cb")
      case True
      with hit bnd len show ?thesis
        by (simp add: cbContents_def nth_append del: upt_Suc)
    next
      case False
      with hit bnd len i show ?thesis
        by (simp add: cbContents_def nth_append del: upt_Suc)
    qed
  qed
  with run inv' show ?thesis by blast
qed

lemma cbRead_spec:
  assumes inv: "cbInvar cb" and con: "cbContents cb = x # xs"
  shows "\<exists>cb'. nimbleServerCircularBufferRead c cb = Some (x, cb') \<and> cbInvar cb' \<and>
    cbContents cb' = xs"
proof -
  let ?h = "unat (cbHead cb)" and ?t = "unat (cbTail cb)"
  let ?cb' = "cb\<lparr>cbTail := (cbTail cb + 1) mod 64, cbIsFull := False\<rparr>"
  from con have pos: "cbLength cb = Suc (length xs)" by (metis length_Cons length_cbContents)
  have bnd: "?h < 64" "?t < 64" "length (cbData cb) = 64" "cbIsFull cb \<longrightarrow> ?h = ?t"
    using inv by (auto simp: cbInvar_def)
  from pos have ne: "cbHead cb \<noteq> cbTail cb \<or> cbIsFull cb"
    by (auto simp: cbLength_def split: if_splits)
  have hd: "x = cbData cb ! ?t"
    using con pos bnd(2) by (simp add: cbContents_def upt_conv_Cons del: upt_Suc)
  have run: "nimbleServerCircularBufferRead c cb = Some (x, ?cb')"
    using ne bnd hd by (auto simp: nimbleServerCircularBufferRead_def)
  have len: "cbLength ?cb' = length xs"
    using ring_size_read [of ?h ?t "cbIsFull cb"] bnd ne pos
    by (simp add: cbLength_def word_unat_eq_iff)
  have "cbContents ?cb' = xs"
  proof (rule nth_equalityI)
    show "length (cbContents ?cb') = length xs" using len by simp
  next
    fix i assume "i < length (cbContents ?cb')"
    then have i: "i < length xs" using len by simp
    have "xs ! i = cbContents cb ! Suc i" using con by simp
    also have "\<dots> = cbData cb ! ((?t + Suc i) mod 64)"
      using i pos by (simp add: cbContents_def del: upt_Suc)
    finally show "cbContents ?cb' ! i = xs ! i"
      using i len bnd(2) by (simp add: cbContents_def mod_simps del: upt_Suc)
  qed
  moreover have "cbInvar ?cb'" using inv by (simp add: cbInvar_def)
  ultimately show ?thesis using run by blast
qed

interpretation ring: bounded_fifo "nimbleServerCircularBufferWrite c"
  "nimbleServerCircularBufferRead c" cbContents cbInvar 64 for c
  by unfold_locales (simp_all add: cbLength_le cbWrite_spec cbRead_spec)

interpretation ring_pool: id_pool "nimbleServerCircularBufferWrite c"
  "nimbleServerCircularBufferRead c" cbContents cbInvar 64 unat for c
  by unfold_locales (simp add: inj_def word_unat_eq_iff)

abbreviation ringPool :: "nat \<Rightarrow> NimbleServerCircularBuffer \<Rightarrow> nat set \<Rightarrow> bool" where
  "ringPool \<equiv> idPool cbInvar cbContents unat"

lemma cbInit_invar [simp]:
  "length (cbData cb) = 64 \<Longrightarrow> cbInvar (nimbleServerCircularBufferInit cb)"
  by (simp add: cbInvar_def nimbleServerCircularBufferInit_def)

lemma cbInit_contents [simp]: "cbContents (nimbleServerCircularBufferInit cb) = []"
  by (simp add: cbContents_def cbLength_def nimbleServerCircularBufferInit_def)

lemma cbCount_length: "cbInvar cb \<Longrightarrow> unat (nimbleServerCircularBufferCount cb) = length (cbContents cb)"
  by (auto simp: nimbleServerCircularBufferCount_def cbInvar_def cbLength_def unat_sub_if'
      word_le_nat_alt unat_word_ariths mod_if)

lemma cbWrite_full:
  assumes "cbInvar cb" "cbIsFull cb"
  shows "\<exists>cb'. nimbleServerCircularBufferWrite ClogOff cb x = Some cb' \<and> cbInvar cb' \<and> cbContents cb' = [x]"
proof -
  let ?t = "unat (cbTail cb)"
  let ?cb' = "cb\<lparr>cbData := (cbData cb)[?t := x], cbHead := (cbTail cb + 1) mod 64,
                 cbIsFull := ((cbTail cb + 1) mod 64 = cbTail cb)\<rparr>"
  have b: "cbHead cb = cbTail cb" "?t < 64" "length (cbData cb) = 64" using assms by (auto simp: cbInvar_def)
  have run: "nimbleServerCircularBufferWrite ClogOff cb x = Some ?cb'"
    using b by (simp add: nimbleServerCircularBufferWrite_def Let_def)
  have nf: "\<not> (?t + 1) mod 64 = ?t" using b(2) by (simp add: mod_if)
  have len: "cbLength ?cb' = 1"
    using b nf ring_size_write [OF b(2) b(2)] by (simp add: cbLength_def ring_eq_iff)
  have "cbContents ?cb' = [x]" using len b by (simp add: cbContents_def)
  moreover have "cbInvar ?cb'" using b nf by (simp add: cbInvar_def ring_eq_iff)
  ultimately show ?thesis using run by blast
qed

text \<open>With logging off a write always returns, and nothing but the new entry is added.\<close>

lemma cbWrite_off:
  assumes "cbInvar cb"
  shows "\<exists>cb'. nimbleServerCircularBufferWrite ClogOff cb x = Some cb' \<and> cbInvar cb' \<and>
    set (cbContents cb') \<subseteq> insert x (set (cbContents cb))"
proof (cases "cbIsFull cb")
  case True
  with cbWrite_full [OF assms True, of x] show ?thesis by auto
next
  case False
  then have "cbLength cb < 64" using cbLength_full [OF assms] cbLength_le [of cb] by linarith
  from cbWrite_spec [OF assms this, of ClogOff x] show ?thesis by auto
qed

lemma cbIsEmpty_iff: "cbInvar cb \<Longrightarrow> nimbleServerCircularBufferIsEmpty cb \<longleftrightarrow> cbContents cb = []"
  by (auto simp: nimbleServerCircularBufferIsEmpty_def cbInvar_def cbContents_def cbLength_def
      word_unat_eq_iff mod_if split: if_splits)

section \<open>Properties\<close>


lemma emptyRing_invar [simp]: "cbInvar emptyRing"
  by (simp add: emptyRing_def cbInvar_def)


text \<open>
  Round trip: a freshly initialised ring takes any sequence of at most 64 identifiers and
  gives them back in the order they were written, ending empty.
\<close>

theorem circularBuffer_roundtrip:
  assumes "length (cbData cb) = 64" "length xs \<le> 64"
  shows "\<exists>full empty.
    runAll (nimbleServerCircularBufferWrite c) (nimbleServerCircularBufferInit cb) xs = Some full \<and>
    unat (nimbleServerCircularBufferCount full) = length xs \<and>
    drain (nimbleServerCircularBufferRead c) full (length xs) = Some (xs, empty) \<and>
    nimbleServerCircularBufferIsEmpty empty"
proof -
  let ?q = "nimbleServerCircularBufferInit cb"
  have q: "cbInvar ?q" "cbContents ?q = []" using assms(1) by simp_all
  obtain q1 where q1: "runAll (nimbleServerCircularBufferWrite c) ?q xs = Some q1" "cbInvar q1"
    "cbContents q1 = xs @ []"
    using ring.runAll_enq [OF q(1), of xs c] q(2) assms(2) by auto
  obtain q2 where q2: "drain (nimbleServerCircularBufferRead c) q1 (length xs) = Some (xs, q2)"
    "cbInvar q2" "cbContents q2 = []"
    using ring.drain_deq [OF q1(2,3)] by blast
  show ?thesis
    using q1 q2 cbIsEmpty_iff [OF q2(2)] cbCount_length [OF q1(2)] by auto
qed

theorem circularBuffer_roundtrip_witness:
  "length (cbData emptyRing) = 64 \<and> length [3, 1, 2 :: u8] \<le> 64 \<and>
   (\<exists>full empty. runAll (nimbleServerCircularBufferWrite ClogOff)
       (nimbleServerCircularBufferInit emptyRing) [3, 1, 2] = Some full \<and>
     drain (nimbleServerCircularBufferRead ClogOff) full 3 = Some ([3, 1, 2], empty))"
  using circularBuffer_roundtrip [of emptyRing "[3, 1, 2]" ClogOff]
  by (auto simp: emptyRing_def numeral_3_eq_3)

text \<open>
  C40. A write to a full ring is refused only by the build in which \<open>CLOG_ERROR\<close> stops. In the
  other build the 64 stored identifiers are lost: the ring then holds the new entry alone.
\<close>

theorem circularBuffer_overwrite_loses_contents:
  assumes "cbInvar cb" "nimbleServerCircularBufferIsFull cb"
  shows "nimbleServerCircularBufferWrite ClogFatal cb x = None \<and>
    (\<exists>cb'. nimbleServerCircularBufferWrite ClogOff cb x = Some cb' \<and> cbContents cb' = [x] \<and>
           nimbleServerCircularBufferCount cb' = 1)"
proof -
  have full: "cbIsFull cb" using assms(2) by (simp add: nimbleServerCircularBufferIsFull_def)
  obtain cb' where w: "nimbleServerCircularBufferWrite ClogOff cb x = Some cb'" "cbInvar cb'" "cbContents cb' = [x]"
    using cbWrite_full [OF assms(1) full] by blast
  then have "unat (nimbleServerCircularBufferCount cb') = 1" using cbCount_length by fastforce
  then have "nimbleServerCircularBufferCount cb' = 1" by (metis unat_1 word_unat_eq_iff)
  with w full show ?thesis by (auto simp: nimbleServerCircularBufferWrite_def)
qed

theorem circularBuffer_overwrite_loses_contents_witness:
  "let full = emptyRing\<lparr>cbIsFull := True\<rparr> in
   cbInvar full \<and> nimbleServerCircularBufferIsFull full \<and>
   nimbleServerCircularBufferWrite ClogFatal full 9 = None"
  using circularBuffer_overwrite_loses_contents [of "emptyRing\<lparr>cbIsFull := True\<rparr>" 9]
  by (simp add: emptyRing_def cbInvar_def nimbleServerCircularBufferIsFull_def)

end
