(* ===== verification/ConnectionQuality.thy ===== *)
theory ConnectionQuality
  imports Prelude
begin

text \<open>
  Connection quality of a party, \<open>src/src/lib/connection_quality.c\<close>, and the delayed verdict on
  it, \<open>src/src/lib/delayed_quality.c\<close>. The text buffers and logs of the structures are left out.
\<close>

section \<open>Connection quality\<close>

datatype NimbleServerConnectionQualityDisconnectReason =
    NimbleServerConnectionQualityDisconnectReasonKeep
  | NimbleServerConnectionQualityDisconnectReasonNotProvidingStepsInTime

record NimbleServerConnectionQuality =
  forcedStepInRowCounter :: size_t
  providedStepsInARow :: size_t
  addedStepsToBufferCounter :: size_t
  hasAddedFirstAcceptedSteps :: bool

definition nimbleServerConnectionQualityReset ::
  "NimbleServerConnectionQuality \<Rightarrow> NimbleServerConnectionQuality" where
  "nimbleServerConnectionQualityReset self =
     self\<lparr>providedStepsInARow := 0, forcedStepInRowCounter := 0,
          hasAddedFirstAcceptedSteps := False, addedStepsToBufferCounter := 0\<rparr>"

definition nimbleServerConnectionQualityReInit ::
  "NimbleServerConnectionQuality \<Rightarrow> NimbleServerConnectionQuality" where
  "nimbleServerConnectionQualityReInit self = nimbleServerConnectionQualityReset self"

definition nimbleServerConnectionQualityInit ::
  "NimbleServerConnectionQuality \<Rightarrow> NimbleServerConnectionQuality" where
  "nimbleServerConnectionQualityInit self = nimbleServerConnectionQualityReset self"

definition isFailingToProvideStepsInTime :: "NimbleServerConnectionQuality \<Rightarrow> bool" where
  "isFailingToProvideStepsInTime self =
     (let forcedStepInRowCounterThreshold =
            (if \<not> hasAddedFirstAcceptedSteps self then 200 else 20)
      in forcedStepInRowCounter self \<ge> forcedStepInRowCounterThreshold)"

definition evaluate ::
  "NimbleServerConnectionQuality \<Rightarrow> NimbleServerConnectionQualityDisconnectReason" where
  "evaluate self =
     (if isFailingToProvideStepsInTime self
      then NimbleServerConnectionQualityDisconnectReasonNotProvidingStepsInTime
      else NimbleServerConnectionQualityDisconnectReasonKeep)"

definition nimbleServerConnectionQualityProvidedUsableStep ::
  "NimbleServerConnectionQuality \<Rightarrow> NimbleServerConnectionQuality" where
  "nimbleServerConnectionQualityProvidedUsableStep self =
     (let self1 = self\<lparr>forcedStepInRowCounter := 0,
                        providedStepsInARow := providedStepsInARow self + 1\<rparr>;
          self2 = (if \<not> hasAddedFirstAcceptedSteps self1
                   then self1\<lparr>hasAddedFirstAcceptedSteps := True, forcedStepInRowCounter := 0\<rparr>
                   else self1)
      in self2\<lparr>addedStepsToBufferCounter := 0\<rparr>)"

definition nimbleServerConnectionQualityAddedStepsToBuffer ::
  "NimbleServerConnectionQuality \<Rightarrow> size_t \<Rightarrow> NimbleServerConnectionQuality" where
  "nimbleServerConnectionQualityAddedStepsToBuffer self count =
     self\<lparr>addedStepsToBufferCounter := addedStepsToBufferCounter self + count\<rparr>"

definition nimbleServerConnectionQualityAddedForcedSteps ::
  "NimbleServerConnectionQuality \<Rightarrow> size_t \<Rightarrow> NimbleServerConnectionQuality" where
  "nimbleServerConnectionQualityAddedForcedSteps self count =
     self\<lparr>providedStepsInARow := 0,
          forcedStepInRowCounter := forcedStepInRowCounter self + count\<rparr>"

definition nimbleServerConnectionQualityCheckIfShouldDisconnect ::
  "NimbleServerConnectionQuality \<Rightarrow> bool" where
  "nimbleServerConnectionQualityCheckIfShouldDisconnect self =
     (evaluate self \<noteq> NimbleServerConnectionQualityDisconnectReasonKeep)"

section \<open>The delayed verdict\<close>

record NimbleServerConnectionQualityDelayed =
  impedingDisconnectCounter :: size_t

definition nimbleServerConnectionQualityDelayedInit ::
  "NimbleServerConnectionQualityDelayed \<Rightarrow> NimbleServerConnectionQualityDelayed" where
  "nimbleServerConnectionQualityDelayedInit self = self\<lparr>impedingDisconnectCounter := 0\<rparr>"

definition nimbleServerConnectionQualityDelayedReset ::
  "NimbleServerConnectionQualityDelayed \<Rightarrow> NimbleServerConnectionQualityDelayed" where
  "nimbleServerConnectionQualityDelayedReset self = self\<lparr>impedingDisconnectCounter := 0\<rparr>"

definition nimbleServerConnectionQualityDelayedTick ::
  "NimbleServerConnectionQualityDelayed \<Rightarrow> NimbleServerConnectionQuality \<Rightarrow>
   bool \<times> NimbleServerConnectionQualityDelayed" where
  "nimbleServerConnectionQualityDelayedTick self quality =
     (if nimbleServerConnectionQualityCheckIfShouldDisconnect quality then
        (let self1 = self\<lparr>impedingDisconnectCounter := impedingDisconnectCounter self + 1\<rparr>
         in if impedingDisconnectCounter self1 > 180 then (False, self1) else (True, self1))
      else if impedingDisconnectCounter self > 0 then
        (True, self\<lparr>impedingDisconnectCounter := impedingDisconnectCounter self - 1\<rparr>)
      else (True, self))"

section \<open>Histories\<close>

text \<open>
  What a party's quality sees over time: usable steps, forced steps and steps added to the buffer.
  \<open>forcedSinceProvided\<close> reads the number of forced steps since the last usable step off the
  history, latest event first.
\<close>

datatype quality_event = Provided | Forced size_t | AddedToBuffer size_t

primrec qualityEvent ::
  "NimbleServerConnectionQuality \<Rightarrow> quality_event \<Rightarrow> NimbleServerConnectionQuality" where
  "qualityEvent q Provided = nimbleServerConnectionQualityProvidedUsableStep q"
| "qualityEvent q (Forced n) = nimbleServerConnectionQualityAddedForcedSteps q n"
| "qualityEvent q (AddedToBuffer n) = nimbleServerConnectionQualityAddedStepsToBuffer q n"

fun forcedSinceProvided :: "quality_event list \<Rightarrow> nat" where
  "forcedSinceProvided [] = 0"
| "forcedSinceProvided (Provided # es) = 0"
| "forcedSinceProvided (Forced n # es) = unat n + forcedSinceProvided es"
| "forcedSinceProvided (AddedToBuffer n # es) = forcedSinceProvided es"

primrec delayedRun ::
  "NimbleServerConnectionQualityDelayed \<Rightarrow> NimbleServerConnectionQuality list \<Rightarrow>
   bool list \<times> NimbleServerConnectionQualityDelayed" where
  "delayedRun d [] = ([], d)"
| "delayedRun d (q # qs) =
     (let (keep, d1) = nimbleServerConnectionQualityDelayedTick d q;
          (keeps, d2) = delayedRun d1 qs
      in (keep # keeps, d2))"

section \<open>Lemmas\<close>

lemmas quality_defs =
  nimbleServerConnectionQualityReset_def nimbleServerConnectionQualityProvidedUsableStep_def
  nimbleServerConnectionQualityAddedForcedSteps_def nimbleServerConnectionQualityAddedStepsToBuffer_def

lemma shouldDisconnect_iff:
  "nimbleServerConnectionQualityCheckIfShouldDisconnect q \<longleftrightarrow>
   (if hasAddedFirstAcceptedSteps q then 20 else 200) \<le> unat (forcedStepInRowCounter q)"
  by (simp add: nimbleServerConnectionQualityCheckIfShouldDisconnect_def evaluate_def
      isFailingToProvideStepsInTime_def Let_def word_le_nat_alt)

lemma quality_history:
  fixes q :: NimbleServerConnectionQuality
  defines "run \<equiv> \<lambda>es. foldr (\<lambda>e q. qualityEvent q e) es (nimbleServerConnectionQualityReset q)"
  assumes "forcedSinceProvided es < 2 ^ 64"
  shows "unat (forcedStepInRowCounter (run es)) = forcedSinceProvided es \<and>
         hasAddedFirstAcceptedSteps (run es) = (Provided \<in> set es)"
  using assms(2)
proof (induction es)
  case Nil
  then show ?case by (simp add: run_def quality_defs)
next
  case (Cons e es)
  then show ?case
    by (cases e) (auto simp: run_def quality_defs Let_def unat_add_no_wrap)
qed

lemma delayedTick_counter:
  assumes "unat (impedingDisconnectCounter d) \<le> n" "n + 1 < 2 ^ 64"
  shows "unat (impedingDisconnectCounter (snd (nimbleServerConnectionQualityDelayedTick d q))) \<le>
    n + (if nimbleServerConnectionQualityCheckIfShouldDisconnect q then 1 else 0)"
  using assms
  by (auto simp: nimbleServerConnectionQualityDelayedTick_def Let_def unat_inc unat_sub_if'
      word_le_nat_alt word_less_nat_alt)

lemma delayedTick_drops:
  assumes "\<not> fst (nimbleServerConnectionQualityDelayedTick d q)"
    "unat (impedingDisconnectCounter d) + 1 < 2 ^ 64"
  shows "180 \<le> unat (impedingDisconnectCounter d) \<and>
    nimbleServerConnectionQualityCheckIfShouldDisconnect q"
  using assms
  by (auto simp: nimbleServerConnectionQualityDelayedTick_def Let_def unat_inc word_less_nat_alt
      split: if_splits)

lemma delayedRun_Cons:
  "fst (delayedRun d (q # qs)) = fst (nimbleServerConnectionQualityDelayedTick d q) #
     fst (delayedRun (snd (nimbleServerConnectionQualityDelayedTick d q)) qs)"
  by (simp add: Let_def split_beta)

declare delayedRun.simps(2) [simp del]

lemma delayedRun_budget:
  assumes "unat (impedingDisconnectCounter d) \<le> n" "n + length qs < 2 ^ 64"
    "i < length qs" "\<not> fst (delayedRun d qs) ! i"
  shows "180 < n + length (filter nimbleServerConnectionQualityCheckIfShouldDisconnect (take (Suc i) qs))"
  using assms
proof (induction qs arbitrary: d n i)
  case Nil
  then show ?case by simp
next
  case (Cons q qs)
  let ?bad = "nimbleServerConnectionQualityCheckIfShouldDisconnect"
  let ?d1 = "snd (nimbleServerConnectionQualityDelayedTick d q)"
  let ?n1 = "n + (if ?bad q then 1 else 0)"
  have step: "unat (impedingDisconnectCounter ?d1) \<le> ?n1"
    using Cons.prems by (intro delayedTick_counter) auto
  show ?case
  proof (cases i)
    case 0
    with Cons.prems(4) have "\<not> fst (nimbleServerConnectionQualityDelayedTick d q)"
      by (simp add: delayedRun_Cons)
    with delayedTick_drops [of d q] Cons.prems(1,2) 0 show ?thesis by simp
  next
    case (Suc j)
    with Cons.prems have "\<not> fst (delayedRun ?d1 qs) ! j" "j < length qs" "?n1 + length qs < 2 ^ 64"
      by (auto simp: delayedRun_Cons)
    with Cons.IH [OF step] Suc show ?thesis by (auto split: if_splits)
  qed
qed

lemma delayedRun_all_bad:
  assumes "list_all nimbleServerConnectionQualityCheckIfShouldDisconnect qs"
    "unat (impedingDisconnectCounter d) + length qs < 2 ^ 64"
  shows "fst (delayedRun d qs) =
    map (\<lambda>i. unat (impedingDisconnectCounter d) + i < 180) [0..<length qs]"
  using assms
proof (induction qs arbitrary: d)
  case Nil
  then show ?case by simp
next
  case (Cons q qs)
  let ?c = "impedingDisconnectCounter d"
  let ?d1 = "d\<lparr>impedingDisconnectCounter := ?c + 1\<rparr>"
  from Cons.prems have inc: "unat (?c + 1) = unat ?c + 1" by (intro unat_inc) simp
  with Cons.prems(1) have tick: "nimbleServerConnectionQualityDelayedTick d q = (unat ?c < 180, ?d1)"
    by (auto simp: nimbleServerConnectionQualityDelayedTick_def Let_def word_less_nat_alt)
  have "fst (delayedRun ?d1 qs) = map (\<lambda>i. unat (?c + 1) + i < 180) [0..<length qs]"
    using Cons.IH [of ?d1] Cons.prems inc by simp
  also have "\<dots> = map (\<lambda>i. unat ?c + Suc i < 180) [0..<length qs]" using inc by simp
  finally show ?case
    using tick by (simp add: delayedRun_Cons map_upt_Suc del: upt_Suc)
qed

section \<open>Properties\<close>

text \<open>
  C19. The verdict on a party is exactly what its history says: it is to be disconnected iff at
  least 20 steps were forced since its last usable step, or at least 200 if it never provided one.
  Histories are listed latest event first and start from a reset quality.
\<close>

theorem quality_verdict_matches_history:
  assumes "forcedSinceProvided es < 2 ^ 64"
  shows "nimbleServerConnectionQualityCheckIfShouldDisconnect
      (foldr (\<lambda>e q. qualityEvent q e) es (nimbleServerConnectionQualityReset q)) \<longleftrightarrow>
    (if Provided \<in> set es then 20 else 200) \<le> forcedSinceProvided es"
  using quality_history [OF assms, of q] by (simp add: shouldDisconnect_iff)

theorem quality_verdict_matches_history_witness:
  "forcedSinceProvided [Forced 15, AddedToBuffer 3, Forced 5, Provided, Forced 9] < 2 ^ 64 \<and>
   nimbleServerConnectionQualityCheckIfShouldDisconnect
     (foldr (\<lambda>e q. qualityEvent q e) [Forced 15, AddedToBuffer 3, Forced 5, Provided, Forced 9]
       (nimbleServerConnectionQualityReset
         \<lparr>forcedStepInRowCounter = 1, providedStepsInARow = 2, addedStepsToBufferCounter = 3,
          hasAddedFirstAcceptedSteps = False\<rparr>))"
proof -
  let ?es = "[Forced 15, AddedToBuffer 3, Forced 5, Provided, Forced 9]"
  have h: "forcedSinceProvided ?es < 2 ^ 64" by simp
  show ?thesis using h quality_verdict_matches_history [OF h] by simp
qed


text \<open>
  C32. A party whose quality stays bad is kept for exactly 180 ticks and given up at every later one.
\<close>

theorem delayed_verdict_after_180_bad_ticks:
  assumes "impedingDisconnectCounter d = 0" "length qs < 2 ^ 64"
    "list_all nimbleServerConnectionQualityCheckIfShouldDisconnect qs"
  shows "fst (delayedRun d qs) = map (\<lambda>i. i < 180) [0..<length qs]"
  using delayedRun_all_bad [of qs d] assms by simp

theorem delayed_verdict_after_180_bad_ticks_witness:
  "fst (delayedRun \<lparr>impedingDisconnectCounter = 0\<rparr>
      (replicate 181 \<lparr>forcedStepInRowCounter = 200, providedStepsInARow = 0,
         addedStepsToBufferCounter = 0, hasAddedFirstAcceptedSteps = False\<rparr>)) ! 180 = False"
proof -
  let ?q = "\<lparr>forcedStepInRowCounter = 200, providedStepsInARow = 0,
         addedStepsToBufferCounter = 0, hasAddedFirstAcceptedSteps = False\<rparr>"
  have "list_all nimbleServerConnectionQualityCheckIfShouldDisconnect (replicate 181 ?q)"
    by (simp add: list_all_iff shouldDisconnect_iff)
  then have "fst (delayedRun \<lparr>impedingDisconnectCounter = 0\<rparr> (replicate 181 ?q)) =
      map (\<lambda>i. i < 180) [0..<181]"
    using delayed_verdict_after_180_bad_ticks [of "\<lparr>impedingDisconnectCounter = 0\<rparr>" "replicate 181 ?q"]
    by simp
  then show ?thesis by simp
qed


end
