(* ===== verification/Externals.thy ===== *)
theory Externals
  imports Prelude
begin

text \<open>
  The libraries the server is linked with (\<open>flood\<close>, \<open>nimble-steps\<close>,
  \<open>nimble-steps-serialize\<close>, \<open>nimble-serialize\<close>, \<open>ordered-datagram\<close>, \<open>blob-stream\<close>,
  \<open>stats\<close>, \<open>imprint\<close>, \<open>tiny-libc\<close>, the datagram transport, the clock, the random source
  and the application callback) are not in the repository. They are parameters of the model:
  the record \<open>Env\<close> has one field per library function or constant the server names.

  A library structure is a record of the fields the server reads or writes directly, plus one
  field of the opaque type \<open>'x\<close> for whatever else the library keeps in it. The state of the
  outside world (clock, random source, transport, application) is opaque too and is threaded
  through the calls that touch it. A function that returns an \<open>int\<close> status and fills output
  parameters returns them as a tuple, status first.

  The last section states, as predicates on an \<open>Env\<close>, the documented library behaviour that
  some theorems rely on.
\<close>

section \<open>Library structures\<close>

record 'x FldInStream =
  inPos :: size_t
  inSize :: size_t
  inReadDebugInfo :: bool
  inData :: 'x

text \<open>\<open>outOctets\<close> are the octets written so far, \<open>outPos\<close> is the field \<open>pos\<close>.\<close>

record 'x FldOutStream =
  outPos :: size_t
  outSize :: size_t
  outOctets :: octets
  outWriteDebugInfo :: bool
  outData :: 'x

record 'x NbsSteps =
  expectedReadId :: StepId
  expectedWriteId :: StepId
  stepsCount :: size_t
  stepsData :: 'x

record NbsPendingRange =
  startId :: StepId
  rangeCount :: size_t

record 'x OrderedDatagramInLogic =
  hasReceivedInitialDatagram :: bool
  inLogicData :: 'x

record 'x BlobStreamLogicOut =
  transferId :: int
  blobLogicData :: 'x

record 'x StatsInt =
  statsAvg :: int
  statsAvgIsSet :: bool
  statsData :: 'x

section \<open>Messages of nimble-serialize\<close>

datatype NimbleSerializeCmd =
    NimbleSerializeCmdConnectRequest
  | NimbleSerializeCmdGameStep
  | NimbleSerializeCmdJoinGameRequest
  | NimbleSerializeCmdDownloadGameStateRequest
  | NimbleSerializeCmdClientOutBlobStream
  | NimbleSerializeCmdServerOutBlobStream

datatype NimbleSerializeStepType =
    NimbleSerializeStepTypeNormal
  | NimbleSerializeStepTypeStepNotProvidedInTime
  | NimbleSerializeStepTypeWaitingForReJoin
  | NimbleSerializeStepTypeJoined
  | NimbleSerializeStepTypeLeft

datatype NimbleSerializeJoinGameType =
    NimbleSerializeJoinGameTypeNoSecret
  | NimbleSerializeJoinGameTypePartySecret

record 'x NimbleSerializeConnectRequest =
  crApplicationVersion :: 'x
  crClientRequestId :: u8
  crUseDebugStreams :: bool

record NimbleSerializeConnectResponse =
  crsUseDebugStreams :: bool
  crsConnectionId :: u8
  crsResponseToRequestId :: u8

text \<open>\<open>jrPlayers\<close> are the \<open>localIndex\<close> fields of the array \<open>players\<close>.\<close>

record NimbleSerializeJoinGameRequest =
  jrJoinGameType :: NimbleSerializeJoinGameType
  jrPartyId :: u8
  jrSessionSecret :: u64
  jrPlayerCount :: size_t
  jrPlayers :: "size_t list"
  jrNonce :: u64

record NimbleSerializeJoinGameResponseParticipant =
  jpParticipantId :: u8
  jpLocalIndex :: size_t

record NimbleSerializeJoinGameResponse =
  jsPartyId :: u8
  jsSessionSecret :: u64
  jsParticipantCount :: size_t
  jsParticipants :: "NimbleSerializeJoinGameResponseParticipant list"

record NimbleSerializeLocalPartyInfo =
  piParticipantCount :: size_t
  piParticipantIds :: "u8 list"

record SerializeGameState =
  sgStepId :: StepId
  sgOctetCount :: size_t
  sgState :: octets

section \<open>The environment\<close>

record 'x FloodEnv =
  clogMode :: clog
  fldInStreamInit :: "octets \<Rightarrow> 'x FldInStream"
  fldInStreamReadUInt8 :: "'x FldInStream \<Rightarrow> int \<times> u8 \<times> 'x FldInStream"
  fldInStreamReadUInt16 :: "'x FldInStream \<Rightarrow> int \<times> u16 \<times> 'x FldInStream"
  fldOutStreamInit :: "size_t \<Rightarrow> 'x FldOutStream"
  fldOutStreamWriteUInt8 :: "'x FldOutStream \<Rightarrow> u8 \<Rightarrow> int \<times> 'x FldOutStream"
  fldOutStreamWriteUInt16 :: "'x FldOutStream \<Rightarrow> u16 \<Rightarrow> int \<times> 'x FldOutStream"
  fldOutStreamWriteOctets :: "'x FldOutStream \<Rightarrow> octets \<Rightarrow> int \<times> 'x FldOutStream"
  tc_convert_uint8_t_from_ssize :: "int \<Rightarrow> u8 option"

text \<open>\<open>zeroData\<close> is the library-private part of a structure in zeroed memory.\<close>

record 'x StepsEnv = "'x FloodEnv" +
  zeroData :: 'x
  NBS_WINDOW_SIZE :: size_t
  NimbleStepErrCollectionIsEmpty :: int
  NimbleStepMaxSingleStepOctetCount :: size_t
  nbsStepsInit :: "'x NbsSteps \<Rightarrow> size_t \<Rightarrow> 'x NbsSteps"
  nbsStepsReInit :: "'x NbsSteps \<Rightarrow> StepId \<Rightarrow> 'x NbsSteps"
  nbsStepsDropped :: "'x NbsSteps \<Rightarrow> StepId \<Rightarrow> size_t"
  nbsStepsReadExactStepId :: "'x NbsSteps \<Rightarrow> StepId \<Rightarrow> size_t \<Rightarrow> int \<times> octets \<times> 'x NbsSteps"
  nbsStepsWrite :: "'x NbsSteps \<Rightarrow> StepId \<Rightarrow> octets \<Rightarrow> int \<times> 'x NbsSteps"
  nbsStepsDiscardCount :: "'x NbsSteps \<Rightarrow> size_t \<Rightarrow> int \<times> 'x NbsSteps"
  nbsStepsOutSerializeCalculateCombinedSize :: "size_t \<Rightarrow> size_t \<Rightarrow> size_t"
  nbsStepsInSerializeHeader :: "'x FldInStream \<Rightarrow> int \<times> StepId \<times> size_t \<times> 'x FldInStream"
  nbsStepsInSerializeSinglePredictedStep ::
    "'x FldInStream \<Rightarrow> StepId \<Rightarrow> 'x NbsSteps \<Rightarrow> int \<times> 'x FldInStream \<times> 'x NbsSteps"
  nbsPendingStepsInSerializeHeader :: "'x FldInStream \<Rightarrow> int \<times> StepId \<times> u64 \<times> 'x FldInStream"
  nbsPendingStepsRanges ::
    "StepId \<Rightarrow> StepId \<Rightarrow> u64 \<Rightarrow> size_t \<Rightarrow> size_t \<Rightarrow> int \<times> NbsPendingRange list"
  nbsPendingStepsSerializeOutRanges ::
    "'x FldOutStream \<Rightarrow> 'x NbsSteps \<Rightarrow> NbsPendingRange list \<Rightarrow> int \<times> 'x FldOutStream"

record 'x SerializeEnv = "'x StepsEnv" +
  NIMBLE_SERIALIZE_MAX_LOCAL_PLAYERS :: nat
  cmdOctet :: "NimbleSerializeCmd \<Rightarrow> u8"
  stepTypeOctet :: "NimbleSerializeStepType \<Rightarrow> u8"
  nimbleSerializeVersionIsEqual :: "'x \<Rightarrow> 'x \<Rightarrow> bool"
  nimbleSerializeServerInConnectRequest ::
    "'x FldInStream \<Rightarrow> int \<times> 'x NimbleSerializeConnectRequest \<times> 'x FldInStream"
  nimbleSerializeServerInJoinGameRequest ::
    "'x FldInStream \<Rightarrow> int \<times> NimbleSerializeJoinGameRequest \<times> 'x FldInStream"
  nimbleSerializeServerOutConnectResponse ::
    "'x FldOutStream \<Rightarrow> NimbleSerializeConnectResponse \<Rightarrow> int \<times> 'x FldOutStream"
  nimbleSerializeServerOutJoinGameResponse ::
    "'x FldOutStream \<Rightarrow> NimbleSerializeJoinGameResponse \<Rightarrow> int \<times> 'x FldOutStream"
  nimbleSerializeServerOutJoinGameOutOfParticipantSlotsResponse ::
    "'x FldOutStream \<Rightarrow> u64 \<Rightarrow> int \<times> 'x FldOutStream"
  nimbleSerializeServerOutStepHeader ::
    "'x FldOutStream \<Rightarrow> StepId \<Rightarrow> size_t \<Rightarrow> int \<Rightarrow> int \<times> 'x FldOutStream"
  nimbleSerializeServerOutGameStateResponse ::
    "'x FldOutStream \<Rightarrow> SerializeGameState \<Rightarrow> u8 \<Rightarrow> int \<Rightarrow> int \<times> 'x FldOutStream"
  nimbleSerializeWriteCommand :: "'x FldOutStream \<Rightarrow> NimbleSerializeCmd \<Rightarrow> int \<times> 'x FldOutStream"

text \<open>
  \<open>blobTransferId\<close> converts a number to the integer type \<open>BlobStreamTransferId\<close>, whose width the
  library chooses.
\<close>

record NimbleServerSerializedGameState =
  ssGameState :: octets
  ssGameStateOctetCount :: size_t
  ssStepId :: StepId
  ssHash :: u64

record 'x Env = "'x SerializeEnv" +
  orderedDatagramInLogicInit :: "'x OrderedDatagramInLogic \<Rightarrow> 'x OrderedDatagramInLogic"
  orderedDatagramInLogicReceive ::
    "'x OrderedDatagramInLogic \<Rightarrow> 'x FldInStream \<Rightarrow> int \<times> 'x OrderedDatagramInLogic \<times> 'x FldInStream"
  orderedDatagramOutLogicInit :: "'x \<Rightarrow> 'x"
  orderedDatagramOutLogicPrepare :: "'x \<Rightarrow> 'x FldOutStream \<Rightarrow> 'x \<times> 'x FldOutStream"
  orderedDatagramOutLogicCommit :: "'x \<Rightarrow> 'x"
  blobTransferId :: "int \<Rightarrow> int"
  blobStreamOutInit :: "'x \<Rightarrow> octets \<Rightarrow> size_t \<Rightarrow> 'x"
  blobStreamLogicOutInit :: "'x \<Rightarrow> int \<Rightarrow> 'x BlobStreamLogicOut"
  blobStreamLogicOutReceive ::
    "'x BlobStreamLogicOut \<Rightarrow> 'x FldInStream \<Rightarrow> int \<times> 'x BlobStreamLogicOut \<times> 'x FldInStream"
  blobStreamLogicOutPrepareSend ::
    "'x BlobStreamLogicOut \<Rightarrow> int \<Rightarrow> size_t \<Rightarrow> 'x list \<times> 'x BlobStreamLogicOut"
  blobStreamLogicOutSendEntry :: "'x FldOutStream \<Rightarrow> 'x \<Rightarrow> int \<Rightarrow> int \<times> 'x FldOutStream"
  blobStreamLogicOutStartTransfer ::
    "'x BlobStreamLogicOut \<Rightarrow> 'x FldOutStream \<Rightarrow> int \<times> 'x BlobStreamLogicOut \<times> 'x FldOutStream"
  statsIntInit :: "'x StatsInt \<Rightarrow> size_t \<Rightarrow> 'x StatsInt"
  statsIntAdd :: "'x StatsInt \<Rightarrow> int \<Rightarrow> 'x StatsInt"
  statsIntPerSecondInit :: "'x \<Rightarrow> int \<Rightarrow> int \<Rightarrow> 'x"
  statsIntPerSecondAdd :: "'x \<Rightarrow> int \<Rightarrow> 'x"
  statsIntPerSecondUpdate :: "'x \<Rightarrow> int \<Rightarrow> 'x"
  DATAGRAM_TRANSPORT_MAX_SIZE :: size_t
  datagramTransportMaxSize :: size_t
  imprintAllocOctets :: "size_t \<Rightarrow> octets"
  monotonicTimeMsNow :: "'x \<Rightarrow> int \<times> 'x"
  secureRandomUInt64 :: "'x \<Rightarrow> u64 \<times> 'x"
  multiTransportReceiveFrom :: "'x \<Rightarrow> size_t \<Rightarrow> int \<times> int \<times> octets \<times> 'x"
  multiTransportSendTo :: "'x \<Rightarrow> int \<Rightarrow> octets \<Rightarrow> int \<times> 'x"
  authoritativeStateSerializeFn :: "'x \<Rightarrow> NimbleServerSerializedGameState \<times> 'x"

text \<open>What \<open>transportOut->send\<close> does with a datagram.\<close>

type_synonym 'x transportOut = "octets \<Rightarrow> 'x \<Rightarrow> int \<times> 'x"

section \<open>Library behaviour that theorems rely on\<close>

text \<open>
  \<open>stepReadLaw\<close>: reading a step gives a step of at most 255 octets, or says that there is none.
  \<open>convertLaw\<close>: \<open>tc_convert_uint8_t_from_ssize\<close> keeps a number that fits an octet.
  \<open>stepWriteLaw\<close>: a step that was written is one more step and moves the next id to write.
  The octets that \<open>nbsStepsReadExactStepId\<close> returns are what its buffer holds after the call.
\<close>

definition stepReadLaw :: "'x Env \<Rightarrow> bool" where
  "stepReadLaw E \<longleftrightarrow> NimbleStepErrCollectionIsEmpty E < 0 \<and>
     (\<forall>s i r os s'. nbsStepsReadExactStepId E s i 1024 = (r, os, s') \<longrightarrow>
        r = NimbleStepErrCollectionIsEmpty E \<or> 0 \<le> r \<and> r < 256 \<and> length os = nat r)"

definition convertLaw :: "'x Env \<Rightarrow> bool" where
  "convertLaw E \<longleftrightarrow> (\<forall>n. 0 \<le> n \<and> n < 256 \<longrightarrow> tc_convert_uint8_t_from_ssize E n = Some (word_of_int n))"

definition stepWriteLaw :: "'x Env \<Rightarrow> bool" where
  "stepWriteLaw E \<longleftrightarrow> (\<forall>s i os r s'. nbsStepsWrite E s i os = (r, s') \<and> 0 \<le> r \<longrightarrow>
     stepsCount s' = stepsCount s + 1 \<and> expectedWriteId s' = expectedWriteId s + 1)"

text \<open>
  An output stream over a buffer of \<open>n\<close> octets that holds \<open>os\<close> so far; writing where there is room
  appends.
\<close>

definition streamHolds :: "size_t \<Rightarrow> 'x FldOutStream \<Rightarrow> octets \<Rightarrow> bool" where
  "streamHolds n s os \<longleftrightarrow> outSize s = n \<and> unat (outPos s) = length os \<and> outOctets s = os"

definition outStreamLaw :: "'x Env \<Rightarrow> bool" where
  "outStreamLaw E \<longleftrightarrow> (\<forall>n. streamHolds n (fldOutStreamInit E n) []) \<and>
     (\<forall>n s os b. streamHolds n s os \<and> length os + 1 \<le> unat n \<longrightarrow>
        0 \<le> fst (fldOutStreamWriteUInt8 E s b) \<and> streamHolds n (snd (fldOutStreamWriteUInt8 E s b)) (os @ [b])) \<and>
     (\<forall>n s os bs. streamHolds n s os \<and> length os + length bs \<le> unat n \<longrightarrow>
        0 \<le> fst (fldOutStreamWriteOctets E s bs) \<and> streamHolds n (snd (fldOutStreamWriteOctets E s bs)) (os @ bs))"

end
