(* ===== verification/GameState.thy ===== *)
theory GameState
  imports Externals
begin

text \<open>
  The copy of the application's serialized state that a transport connection offers for download:
  \<open>src/src/lib/game_state.c\<close>. The buffer is a list of \<open>gsCapacity\<close> octets, of which the first
  \<open>gsOctetCount\<close> are the state.
\<close>

section \<open>State and operations\<close>

record NimbleServerGameState =
  gsState :: octets
  gsOctetCount :: size_t
  gsCapacity :: size_t
  gsStepId :: StepId

definition nimbleServerGameStateInit ::
  "'x Env \<Rightarrow> NimbleServerGameState \<Rightarrow> size_t \<Rightarrow> NimbleServerGameState" where
  "nimbleServerGameStateInit E self octetCount =
     self\<lparr>gsState := imprintAllocOctets E octetCount, gsCapacity := octetCount,
          gsStepId := 0, gsOctetCount := 0\<rparr>"

text \<open>\<open>tc_memcpy_octets\<close> reads and writes its first \<open>n\<close> octets; both buffers must hold them.\<close>

definition memcpyOctets :: "octets \<Rightarrow> octets \<Rightarrow> nat \<Rightarrow> octets option" where
  "memcpyOctets dst src n =
     (if n \<le> length dst \<and> n \<le> length src then Some (take n src @ drop n dst) else None)"

definition nimbleServerGameStateSet ::
  "NimbleServerGameState \<Rightarrow> StepId \<Rightarrow> octets \<Rightarrow> size_t \<Rightarrow> (int \<times> NimbleServerGameState) option" where
  "nimbleServerGameStateSet state stepId gameState gameStateOctetCount =
     (if gsOctetCount state \<noteq> 0 \<and> stepId \<le> gsStepId state then Some (0, state)
      else if gsCapacity state < gameStateOctetCount then Some (-4, state)
      else do {
        buf \<leftarrow> memcpyOctets (gsState state) gameState (unat gameStateOctetCount);
        Some (1, state\<lparr>gsState := buf, gsOctetCount := gameStateOctetCount, gsStepId := stepId\<rparr>)
      })"

definition nimbleServerGameStateCopy ::
  "NimbleServerGameState \<Rightarrow> NimbleServerGameState \<Rightarrow> (int \<times> NimbleServerGameState) option" where
  "nimbleServerGameStateCopy state copyFrom =
     nimbleServerGameStateSet state (gsStepId copyFrom) (gsState copyFrom) (gsOctetCount copyFrom)"

section \<open>Invariant\<close>

text \<open>\<open>gsOctets\<close> is the stored state itself.\<close>

definition gsInvar :: "NimbleServerGameState \<Rightarrow> bool" where
  "gsInvar s \<longleftrightarrow> length (gsState s) = unat (gsCapacity s) \<and> gsOctetCount s \<le> gsCapacity s"

definition gsOctets :: "NimbleServerGameState \<Rightarrow> octets" where
  "gsOctets s = take (unat (gsOctetCount s)) (gsState s)"

section \<open>Lemmas\<close>

lemma gameStateInit_invar:
  "length (imprintAllocOctets E n) = unat n \<Longrightarrow>
   gsInvar (nimbleServerGameStateInit E self n) \<and> gsOctets (nimbleServerGameStateInit E self n) = []"
  by (simp add: gsInvar_def gsOctets_def nimbleServerGameStateInit_def)

lemma gameStateSet_accepts:
  assumes "gsInvar s" "gsOctetCount s = 0 \<or> gsStepId s < stepId" "n \<le> gsCapacity s"
    "unat n \<le> length octs"
  shows "\<exists>s'. nimbleServerGameStateSet s stepId octs n = Some (1, s') \<and> gsInvar s' \<and>
    gsOctets s' = take (unat n) octs \<and> gsStepId s' = stepId \<and> gsCapacity s' = gsCapacity s"
proof -
  have "unat n \<le> length (gsState s)" using assms(1,3) by (simp add: gsInvar_def word_le_nat_alt)
  with assms show ?thesis
    by (auto simp: nimbleServerGameStateSet_def memcpyOctets_def gsInvar_def gsOctets_def min_def)
qed

lemma gameStateSet_stale:
  "gsOctetCount s \<noteq> 0 \<Longrightarrow> stepId \<le> gsStepId s \<Longrightarrow>
   nimbleServerGameStateSet s stepId octs n = Some (0, s)"
  by (simp add: nimbleServerGameStateSet_def)

lemma gameStateSet_too_big:
  "gsOctetCount s = 0 \<or> gsStepId s < stepId \<Longrightarrow> gsCapacity s < n \<Longrightarrow>
   nimbleServerGameStateSet s stepId octs n = Some (-4, s)"
  by (auto simp: nimbleServerGameStateSet_def)

section \<open>Properties\<close>

text \<open>
  C35. Setting a game state returns on every input and never writes outside the reserved buffer.
  It keeps the stored state when the new one is not newer (result 0) or does not fit (result -4);
  otherwise (result 1) exactly the given octets are stored with the new step id.
\<close>

theorem gameStateSet_all_branches:
  assumes "gsInvar s" "unat n \<le> length octs"
  shows "\<exists>r s'. nimbleServerGameStateSet s stepId octs n = Some (r, s') \<and> gsInvar s' \<and>
    (if gsOctetCount s \<noteq> 0 \<and> stepId \<le> gsStepId s then r = 0 \<and> s' = s
     else if gsCapacity s < n then r = -4 \<and> s' = s
     else r = 1 \<and> gsOctets s' = take (unat n) octs \<and> gsStepId s' = stepId \<and>
          gsCapacity s' = gsCapacity s)"
proof -
  consider (stale) "gsOctetCount s \<noteq> 0 \<and> stepId \<le> gsStepId s"
    | (big) "gsOctetCount s = 0 \<or> gsStepId s < stepId" "gsCapacity s < n"
    | (ok) "gsOctetCount s = 0 \<or> gsStepId s < stepId" "n \<le> gsCapacity s"
    by (meson linorder_not_le)
  then show ?thesis
  proof cases
    case stale
    with gameStateSet_stale assms(1) show ?thesis by auto
  next
    case big
    with gameStateSet_too_big [OF big] assms(1) show ?thesis by auto
  next
    case ok
    then have "\<not> (gsOctetCount s \<noteq> 0 \<and> stepId \<le> gsStepId s)" "\<not> gsCapacity s < n" by auto
    with gameStateSet_accepts [OF assms(1) ok assms(2)] show ?thesis by auto
  qed
qed

theorem gameStateSet_all_branches_witness:
  "\<exists>s'. nimbleServerGameStateSet \<lparr>gsState = [0, 0, 0, 0], gsOctetCount = 2, gsCapacity = 4, gsStepId = 7\<rparr>
      8 [5, 6, 9] 3 = Some (1, s') \<and> gsOctets s' = [5, 6, 9]"
  using gameStateSet_all_branches
    [of "\<lparr>gsState = [0, 0, 0, 0], gsOctetCount = 2, gsCapacity = 4, gsStepId = 7\<rparr>" 3 "[5, 6, 9]" 8]
  by (auto simp: gsInvar_def)

end
