(* ===== verification/DemoEnv.thy ===== *)
theory DemoEnv
  imports Externals
begin

text \<open>
  One concrete environment, used only to exercise the theorems: it shows that the hypotheses they
  place on the libraries can hold together. Streams are plain octet lists, a step collection is the
  list of its steps, the world is a clock that advances 100 ms per reading, the datagrams still to
  be received and the datagrams sent. No theorem about the server mentions it except in witnesses.
\<close>

datatype demo =
    DNone
  | DNum int
  | DOctets octets
  | DSteps "octets list"
  | DWorld int "(int \<times> octets) list" "(int \<times> octets) list"

fun demoOctets :: "demo \<Rightarrow> octets" where
  "demoOctets (DOctets os) = os"
| "demoOctets _ = []"

fun demoSteps :: "demo \<Rightarrow> octets list" where
  "demoSteps (DSteps xs) = xs"
| "demoSteps _ = []"

definition demoInInit :: "octets \<Rightarrow> demo FldInStream" where
  "demoInInit os = \<lparr>inPos = 0, inSize = of_nat (length os), inReadDebugInfo = False, inData = DOctets os\<rparr>"

definition demoRead8 :: "demo FldInStream \<Rightarrow> int \<times> u8 \<times> demo FldInStream" where
  "demoRead8 s = (if inPos s < inSize s
     then (0, if unat (inPos s) < length (demoOctets (inData s)) then demoOctets (inData s) ! unat (inPos s) else 0,
           s\<lparr>inPos := inPos s + 1\<rparr>)
     else (-1, 0, s))"

definition demoRead16 :: "demo FldInStream \<Rightarrow> int \<times> u16 \<times> demo FldInStream" where
  "demoRead16 s = (let (e1, a, s1) = demoRead8 s; (e2, b, s2) = demoRead8 s1
     in (if e1 < 0 then e1 else e2, 256 * ucast a + ucast b, s2))"

definition demoOutInit :: "size_t \<Rightarrow> demo FldOutStream" where
  "demoOutInit n = \<lparr>outPos = 0, outSize = n, outOctets = [], outWriteDebugInfo = False, outData = DNone\<rparr>"

definition demoWriteOctets :: "demo FldOutStream \<Rightarrow> octets \<Rightarrow> int \<times> demo FldOutStream" where
  "demoWriteOctets s os = (if unat (outPos s) + length os \<le> unat (outSize s)
     then (0, s\<lparr>outPos := outPos s + of_nat (length os), outOctets := outOctets s @ os\<rparr>) else (-1, s))"

definition demoWrite8 :: "demo FldOutStream \<Rightarrow> u8 \<Rightarrow> int \<times> demo FldOutStream" where
  "demoWrite8 s b = demoWriteOctets s [b]"

definition demoWrite16 :: "demo FldOutStream \<Rightarrow> u16 \<Rightarrow> int \<times> demo FldOutStream" where
  "demoWrite16 s v = demoWriteOctets s [ucast (v div 256), ucast v]"

definition demoConvert :: "int \<Rightarrow> u8 option" where
  "demoConvert n = (if 0 \<le> n \<and> n < 256 then Some (word_of_int n) else None)"

definition demoStepsReInit :: "demo NbsSteps \<Rightarrow> StepId \<Rightarrow> demo NbsSteps" where
  "demoStepsReInit s i = \<lparr>expectedReadId = i, expectedWriteId = i, stepsCount = 0, stepsData = DSteps []\<rparr>"

definition demoStepsDropped :: "demo NbsSteps \<Rightarrow> StepId \<Rightarrow> size_t" where
  "demoStepsDropped s i = (if i > expectedWriteId s then ucast (i - expectedWriteId s) else 0)"

definition demoStepsDiscard :: "demo NbsSteps \<Rightarrow> size_t \<Rightarrow> int \<times> demo NbsSteps" where
  "demoStepsDiscard s n = (if n \<le> stepsCount s
     then (int (unat n), s\<lparr>expectedReadId := expectedReadId s + ucast n, stepsCount := stepsCount s - n,
             stepsData := DSteps (drop (unat n) (demoSteps (stepsData s)))\<rparr>)
     else (-1, s))"

text \<open>Reading a step takes it out of the collection, with every older one.\<close>

definition demoStepsRead :: "demo NbsSteps \<Rightarrow> StepId \<Rightarrow> size_t \<Rightarrow> int \<times> octets \<times> demo NbsSteps" where
  "demoStepsRead s i mx =
     (if stepsCount s = 0 then (-2, [], s)
      else if i < expectedReadId s \<or> expectedWriteId s \<le> i then (-2, [], s)
      else let os = take 255 (let xs = demoSteps (stepsData s); k = unat (i - expectedReadId s)
                     in if k < length xs then xs ! k else []);
               s1 = snd (demoStepsDiscard s (ucast (i - expectedReadId s) + 1))
           in (int (length os), os, s1))"

definition demoStepsWrite :: "demo NbsSteps \<Rightarrow> StepId \<Rightarrow> octets \<Rightarrow> int \<times> demo NbsSteps" where
  "demoStepsWrite s i os = (if i = expectedWriteId s
     then (int (length os), s\<lparr>expectedWriteId := expectedWriteId s + 1, stepsCount := stepsCount s + 1,
             stepsData := DSteps (demoSteps (stepsData s) @ [os])\<rparr>)
     else (-5, s))"

definition demoStepsHeader :: "demo FldInStream \<Rightarrow> int \<times> StepId \<times> size_t \<times> demo FldInStream" where
  "demoStepsHeader s = (let (e1, a, s1) = demoRead8 s; (e2, b, s2) = demoRead8 s1
     in (if e1 < 0 then e1 else e2, ucast a, ucast b, s2))"

definition demoSingleStep ::
  "demo FldInStream \<Rightarrow> StepId \<Rightarrow> demo NbsSteps \<Rightarrow> int \<times> demo FldInStream \<times> demo NbsSteps" where
  "demoSingleStep s i st = (let (e, a, s1) = demoRead8 s
     in if e < 0 then (e, s1, st)
        else if i = expectedWriteId st then (1, s1, snd (demoStepsWrite st i [a])) else (0, s1, st))"

definition demoPendingHeader :: "demo FldInStream \<Rightarrow> int \<times> StepId \<times> u64 \<times> demo FldInStream" where
  "demoPendingHeader s = (let (e, a, s1) = demoRead8 s in (e, ucast a, 0, s1))"

fun demoCmdOctet :: "NimbleSerializeCmd \<Rightarrow> u8" where
  "demoCmdOctet NimbleSerializeCmdConnectRequest = 1"
| "demoCmdOctet NimbleSerializeCmdGameStep = 2"
| "demoCmdOctet NimbleSerializeCmdJoinGameRequest = 3"
| "demoCmdOctet NimbleSerializeCmdDownloadGameStateRequest = 4"
| "demoCmdOctet NimbleSerializeCmdClientOutBlobStream = 5"
| "demoCmdOctet NimbleSerializeCmdServerOutBlobStream = 6"

fun demoStepTypeOctet :: "NimbleSerializeStepType \<Rightarrow> u8" where
  "demoStepTypeOctet NimbleSerializeStepTypeNormal = 0"
| "demoStepTypeOctet NimbleSerializeStepTypeStepNotProvidedInTime = 1"
| "demoStepTypeOctet NimbleSerializeStepTypeWaitingForReJoin = 2"
| "demoStepTypeOctet NimbleSerializeStepTypeJoined = 3"
| "demoStepTypeOctet NimbleSerializeStepTypeLeft = 4"

definition demoInConnect ::
  "demo FldInStream \<Rightarrow> int \<times> demo NimbleSerializeConnectRequest \<times> demo FldInStream" where
  "demoInConnect s = (let (e1, v, s1) = demoRead8 s; (e2, r, s2) = demoRead8 s1
     in (if e1 < 0 then e1 else e2,
         \<lparr>crApplicationVersion = DNum (uint v), crClientRequestId = r, crUseDebugStreams = False\<rparr>, s2))"

text \<open>A join request of the demo: kind, party id and the number of players.\<close>

definition demoInJoin ::
  "demo FldInStream \<Rightarrow> int \<times> NimbleSerializeJoinGameRequest \<times> demo FldInStream" where
  "demoInJoin s = (let (e1, k, s1) = demoRead8 s; (e2, p, s2) = demoRead8 s1; (e3, n, s3) = demoRead8 s2
     in (if e1 < 0 then e1 else if e2 < 0 then e2 else e3,
         \<lparr>jrJoinGameType = (if k = 0 then NimbleSerializeJoinGameTypeNoSecret
                            else NimbleSerializeJoinGameTypePartySecret),
          jrPartyId = p, jrSessionSecret = 0, jrPlayerCount = ucast n, jrPlayers = replicate (unat n) 0,
          jrNonce = 0\<rparr>, s3))"

definition demoOutConnect :: "demo FldOutStream \<Rightarrow> NimbleSerializeConnectResponse \<Rightarrow> int \<times> demo FldOutStream" where
  "demoOutConnect s r = demoWriteOctets s [1, crsConnectionId r, crsResponseToRequestId r]"

definition demoOutJoin :: "demo FldOutStream \<Rightarrow> NimbleSerializeJoinGameResponse \<Rightarrow> int \<times> demo FldOutStream" where
  "demoOutJoin s r = demoWriteOctets s (3 # jsPartyId r # map jpParticipantId (jsParticipants r))"

definition demoOutStepHeader ::
  "demo FldOutStream \<Rightarrow> StepId \<Rightarrow> size_t \<Rightarrow> int \<Rightarrow> int \<times> demo FldOutStream" where
  "demoOutStepHeader s i n d = demoWriteOctets s [2, ucast i, ucast n, word_of_int d]"

definition demoOutGameState ::
  "demo FldOutStream \<Rightarrow> SerializeGameState \<Rightarrow> u8 \<Rightarrow> int \<Rightarrow> int \<times> demo FldOutStream" where
  "demoOutGameState s g r t = demoWriteOctets s [4, ucast (sgStepId g), ucast (sgOctetCount g), r, word_of_int t]"

definition demoInReceive ::
  "demo OrderedDatagramInLogic \<Rightarrow> demo FldInStream \<Rightarrow>
   int \<times> demo OrderedDatagramInLogic \<times> demo FldInStream" where
  "demoInReceive l s = (let (e, a, s1) = demoRead16 s
     in (e, l\<lparr>hasReceivedInitialDatagram := True\<rparr>, s1))"

definition demoStatsAdd :: "demo StatsInt \<Rightarrow> int \<Rightarrow> demo StatsInt" where
  "demoStatsAdd s v = s\<lparr>statsAvg := v, statsAvgIsSet := True\<rparr>"

fun demoNow :: "demo \<Rightarrow> int \<times> demo" where
  "demoNow (DWorld t inp out) = (t, DWorld (t + 100) inp out)"
| "demoNow _ = (0, DWorld 100 [] [])"

fun demoReceive :: "demo \<Rightarrow> size_t \<Rightarrow> int \<times> int \<times> octets \<times> demo" where
  "demoReceive (DWorld t ((c, os) # inp) out) n = (int (length os), c, os, DWorld t inp out)"
| "demoReceive w n = (0, 0, [], w)"

fun demoSend :: "demo \<Rightarrow> int \<Rightarrow> octets \<Rightarrow> int \<times> demo" where
  "demoSend (DWorld t inp out) c os = (0, DWorld t inp (out @ [(c, os)]))"
| "demoSend w c os = (-1, w)"

definition demoEnv :: "clog \<Rightarrow> demo Env" where
  "demoEnv c = \<lparr>
     clogMode = c,
     fldInStreamInit = demoInInit,
     fldInStreamReadUInt8 = demoRead8,
     fldInStreamReadUInt16 = demoRead16,
     fldOutStreamInit = demoOutInit,
     fldOutStreamWriteUInt8 = demoWrite8,
     fldOutStreamWriteUInt16 = demoWrite16,
     fldOutStreamWriteOctets = demoWriteOctets,
     tc_convert_uint8_t_from_ssize = demoConvert,
     zeroData = DNone,
     NBS_WINDOW_SIZE = 120,
     NimbleStepErrCollectionIsEmpty = -2,
     NimbleStepMaxSingleStepOctetCount = 255,
     nbsStepsInit = (\<lambda>s n. demoStepsReInit s 0),
     nbsStepsReInit = demoStepsReInit,
     nbsStepsDropped = demoStepsDropped,
     nbsStepsReadExactStepId = demoStepsRead,
     nbsStepsWrite = demoStepsWrite,
     nbsStepsDiscardCount = demoStepsDiscard,
     nbsStepsOutSerializeCalculateCombinedSize = (*),
     nbsStepsInSerializeHeader = demoStepsHeader,
     nbsStepsInSerializeSinglePredictedStep = demoSingleStep,
     nbsPendingStepsInSerializeHeader = demoPendingHeader,
     nbsPendingStepsRanges = (\<lambda>a b m r n. (0, [])),
     nbsPendingStepsSerializeOutRanges =
       (\<lambda>s st rs. demoWriteOctets s (concat (map (\<lambda>r. [ucast (startId r), ucast (rangeCount r)]) rs))),
     NIMBLE_SERIALIZE_MAX_LOCAL_PLAYERS = 8,
     cmdOctet = demoCmdOctet,
     stepTypeOctet = demoStepTypeOctet,
     nimbleSerializeVersionIsEqual = (=),
     nimbleSerializeServerInConnectRequest = demoInConnect,
     nimbleSerializeServerInJoinGameRequest = demoInJoin,
     nimbleSerializeServerOutConnectResponse = demoOutConnect,
     nimbleSerializeServerOutJoinGameResponse = demoOutJoin,
     nimbleSerializeServerOutJoinGameOutOfParticipantSlotsResponse = (\<lambda>s n. demoWriteOctets s [7]),
     nimbleSerializeServerOutStepHeader = demoOutStepHeader,
     nimbleSerializeServerOutGameStateResponse = demoOutGameState,
     nimbleSerializeWriteCommand = (\<lambda>s k. demoWriteOctets s [demoCmdOctet k]),
     orderedDatagramInLogicInit = (\<lambda>l. l\<lparr>hasReceivedInitialDatagram := False\<rparr>),
     orderedDatagramInLogicReceive = demoInReceive,
     orderedDatagramOutLogicInit = (\<lambda>l. DNum 0),
     orderedDatagramOutLogicPrepare = (\<lambda>l s. (l, snd (demoWrite16 s 0))),
     orderedDatagramOutLogicCommit = (\<lambda>l. l),
     blobTransferId = (\<lambda>n. n mod 65536),
     blobStreamOutInit = (\<lambda>b os n. DOctets (take (unat n) os)),
     blobStreamLogicOutInit = (\<lambda>b t. \<lparr>transferId = t, blobLogicData = b\<rparr>),
     blobStreamLogicOutReceive = (\<lambda>l s. let (e, a, s1) = demoRead8 s in (e, l, s1)),
     blobStreamLogicOutPrepareSend = (\<lambda>l t n. ([blobLogicData l], l)),
     blobStreamLogicOutSendEntry = (\<lambda>s e t. demoWriteOctets s (demoOctets e)),
     blobStreamLogicOutStartTransfer = (\<lambda>l s. let (e, s1) = demoWriteOctets s [word_of_int (transferId l)] in (e, l, s1)),
     statsIntInit = (\<lambda>s n. s\<lparr>statsAvg := 0, statsAvgIsSet := False\<rparr>),
     statsIntAdd = demoStatsAdd,
     statsIntPerSecondInit = (\<lambda>s t n. DNum 0),
     statsIntPerSecondAdd = (\<lambda>s n. s),
     statsIntPerSecondUpdate = (\<lambda>s t. s),
     DATAGRAM_TRANSPORT_MAX_SIZE = 1200,
     datagramTransportMaxSize = 1200,
     imprintAllocOctets = (\<lambda>n. replicate (unat n) 0),
     monotonicTimeMsNow = demoNow,
     secureRandomUInt64 = (\<lambda>w. (42, w)),
     multiTransportReceiveFrom = demoReceive,
     multiTransportSendTo = demoSend,
     authoritativeStateSerializeFn =
       (\<lambda>w. (\<lparr>ssGameState = [10, 11, 12], ssGameStateOctetCount = 3, ssStepId = 5, ssHash = 0\<rparr>, w))
   \<rparr>"

section \<open>The libraries' behaviour in this environment\<close>

lemma demo_stepReadLaw: "stepReadLaw (demoEnv c)"
  by (auto simp: stepReadLaw_def demoEnv_def demoStepsRead_def Let_def split: if_splits)

lemma demo_convertLaw: "convertLaw (demoEnv c)"
  by (simp add: convertLaw_def demoEnv_def demoConvert_def)

lemma demo_stepWriteLaw: "stepWriteLaw (demoEnv c)"
  by (auto simp: stepWriteLaw_def demoEnv_def demoStepsWrite_def split: if_splits)

lemma demo_writeOctets:
  assumes "streamHolds n s os" "length os + length bs \<le> unat n"
  shows "0 \<le> fst (demoWriteOctets s bs)" "streamHolds n (snd (demoWriteOctets s bs)) (os @ bs)"
proof -
  have "unat n < 2 ^ 64" using unsigned_less [of n, where 'a = nat] by simp
  with assms have "unat (outPos s + of_nat (length bs)) = length os + length bs"
    by (subst unat_add_no_wrap) (simp_all add: streamHolds_def)
  with assms show "0 \<le> fst (demoWriteOctets s bs)" "streamHolds n (snd (demoWriteOctets s bs)) (os @ bs)"
    by (auto simp: streamHolds_def demoWriteOctets_def)
qed

lemma demo_outStreamLaw: "outStreamLaw (demoEnv c)"
  using demo_writeOctets
  by (auto simp: outStreamLaw_def demoEnv_def demoWrite8_def demoOutInit_def streamHolds_def)

lemmas demo_laws = demo_stepReadLaw demo_convertLaw demo_stepWriteLaw demo_outStreamLaw

end
