(* ===== verification/UpdateQuality.thy ===== *)
theory UpdateQuality
  imports DemoEnv
begin

text \<open>
  The host's own tick rate, \<open>src/src/lib/update_quality.c\<close>: a server that is updated too slowly
  stops itself.
\<close>

section \<open>State and operations\<close>

datatype NimbleServerUpdateQualityState =
    NimbleServerUpdateQualityStateWorking
  | NimbleServerUpdateQualityStateFailedTickTime
  | NimbleServerUpdateQualityStateFailedAverageTickTime

record 'x NimbleServerUpdateQuality =
  lastTimeMs :: int
  measuredDeltaTimeMsStat :: "'x StatsInt"
  averageTickTimeFailedInARow :: size_t
  deltaTickTimeFailedInARow :: size_t
  targetTimeMs :: size_t
  uqState :: NimbleServerUpdateQualityState

definition nimbleServerUpdateQualityReInit ::
  "'x Env \<Rightarrow> 'x \<Rightarrow> 'x NimbleServerUpdateQuality \<Rightarrow> 'x NimbleServerUpdateQuality \<times> 'x" where
  "nimbleServerUpdateQualityReInit E w self =
     (let (now, w1) = monotonicTimeMsNow E w
      in (self\<lparr>measuredDeltaTimeMsStat := statsIntInit E (measuredDeltaTimeMsStat self) 10,
               deltaTickTimeFailedInARow := 0, averageTickTimeFailedInARow := 0,
               lastTimeMs := now, uqState := NimbleServerUpdateQualityStateWorking\<rparr>, w1))"

definition nimbleServerUpdateQualityInit ::
  "'x Env \<Rightarrow> 'x \<Rightarrow> 'x NimbleServerUpdateQuality \<Rightarrow> size_t \<Rightarrow> 'x NimbleServerUpdateQuality \<times> 'x" where
  "nimbleServerUpdateQualityInit E w self target =
     nimbleServerUpdateQualityReInit E w (self\<lparr>targetTimeMs := target\<rparr>)"

text \<open>The counters of a tick that measured \<open>delta\<close> milliseconds.\<close>

definition updateQualityCount ::
  "'x Env \<Rightarrow> size_t \<Rightarrow> int \<Rightarrow> 'x NimbleServerUpdateQuality \<Rightarrow> 'x NimbleServerUpdateQuality" where
  "updateQualityCount E delta now self =
     (let s1 = self\<lparr>measuredDeltaTimeMsStat :=
                 statsIntAdd E (measuredDeltaTimeMsStat self) (int_of_size delta), lastTimeMs := now\<rparr>;
          s2 = s1\<lparr>deltaTickTimeFailedInARow :=
                 (if delta > targetTimeMs s1 then deltaTickTimeFailedInARow s1 + 1 else 0)\<rparr>
      in if statsAvgIsSet (measuredDeltaTimeMsStat s2) then
           (if statsAvg (measuredDeltaTimeMsStat s2) > int_of_size (targetTimeMs s2)
            then s2\<lparr>averageTickTimeFailedInARow := averageTickTimeFailedInARow s2 + 1\<rparr>
            else s2\<lparr>averageTickTimeFailedInARow := 0\<rparr>)
         else s2)"

text \<open>The two thresholds of a tick.\<close>

definition updateQualityVerdict ::
  "'x NimbleServerUpdateQuality \<Rightarrow> int \<times> 'x NimbleServerUpdateQuality" where
  "updateQualityVerdict s =
     (if deltaTickTimeFailedInARow s > 60
      then (-1, s\<lparr>uqState := NimbleServerUpdateQualityStateFailedTickTime\<rparr>)
      else if averageTickTimeFailedInARow s > 50
      then (-1, s\<lparr>uqState := NimbleServerUpdateQualityStateFailedAverageTickTime\<rparr>)
      else (0, s))"

definition nimbleServerUpdateQualityTick ::
  "'x Env \<Rightarrow> 'x \<Rightarrow> 'x NimbleServerUpdateQuality \<Rightarrow>
   (int \<times> 'x NimbleServerUpdateQuality \<times> 'x) option" where
  "nimbleServerUpdateQualityTick E w self =
     (if uqState self \<noteq> NimbleServerUpdateQualityStateWorking then Some (-1, self, w)
      else do {
        let (now, w1) = monotonicTimeMsNow E w;
        clogAssert (clogMode E) (now \<ge> lastTimeMs self);
        let delta = (word_of_int (now - lastTimeMs self) :: size_t);
        let (r, s) = updateQualityVerdict (updateQualityCount E delta now self);
        Some (r, s, w1)
      })"

text \<open>Consecutive ticks with nothing else touching the clock, and the results they return.\<close>

primrec updateQualityTicks ::
  "'x Env \<Rightarrow> 'x \<Rightarrow> 'x NimbleServerUpdateQuality \<Rightarrow> nat \<Rightarrow> (int list \<times> 'x NimbleServerUpdateQuality) option" where
  "updateQualityTicks E w self 0 = Some ([], self)"
| "updateQualityTicks E w self (Suc n) = do {
     (r, s1, w1) \<leftarrow> nimbleServerUpdateQualityTick E w self;
     (rs, s2) \<leftarrow> updateQualityTicks E w1 s1 n;
     Some (r # rs, s2)
   }"

text \<open>
  Behaviour of the outside world the theorems are about. \<open>lateClock\<close>: each reading of the clock is
  more than the target after the one before. \<open>punctualClock\<close>: readings are at most the target apart.
  \<open>averageBounded\<close>: the statistic is an average, so it is at most the target while no measured value
  exceeds the target.
\<close>

definition lateClock :: "'x Env \<Rightarrow> size_t \<Rightarrow> bool" where
  "lateClock E target \<longleftrightarrow> (\<forall>w. let (t0, w0) = monotonicTimeMsNow E w; (t1, w1) = monotonicTimeMsNow E w0
     in t0 + uint target < t1 \<and> t1 - t0 < 2 ^ 63)"

definition punctualClock :: "'x Env \<Rightarrow> size_t \<Rightarrow> bool" where
  "punctualClock E target \<longleftrightarrow> (\<forall>w. let (t0, w0) = monotonicTimeMsNow E w; (t1, w1) = monotonicTimeMsNow E w0
     in t0 \<le> t1 \<and> t1 \<le> t0 + uint target)"

definition averageBounded :: "'x Env \<Rightarrow> int \<Rightarrow> ('x StatsInt \<Rightarrow> bool) \<Rightarrow> bool" where
  "averageBounded E m low \<longleftrightarrow>
     (\<forall>s n. low (statsIntInit E s n)) \<and>
     (\<forall>s v. low s \<longrightarrow> v \<le> m \<longrightarrow> low (statsIntAdd E s v)) \<and>
     (\<forall>s. low s \<longrightarrow> statsAvgIsSet s \<longrightarrow> statsAvg s \<le> m)"

definition followsClock :: "'x Env \<Rightarrow> 'x \<Rightarrow> 'x NimbleServerUpdateQuality \<Rightarrow> bool" where
  "followsClock E w s \<longleftrightarrow> (\<exists>w0. monotonicTimeMsNow E w0 = (lastTimeMs s, w))"

section \<open>Lemmas\<close>

lemma updateQualityCount_frame [simp]:
  "lastTimeMs (updateQualityCount E delta now s) = now"
  "targetTimeMs (updateQualityCount E delta now s) = targetTimeMs s"
  "uqState (updateQualityCount E delta now s) = uqState s"
  "deltaTickTimeFailedInARow (updateQualityCount E delta now s) =
     (if delta > targetTimeMs s then deltaTickTimeFailedInARow s + 1 else 0)"
  by (simp_all add: updateQualityCount_def Let_def)

lemma updateQualityTick_failed:
  "uqState s \<noteq> NimbleServerUpdateQualityStateWorking \<Longrightarrow>
   nimbleServerUpdateQualityTick E w s = Some (-1, s, w)"
  by (simp add: nimbleServerUpdateQualityTick_def)

lemma updateQualityTick_working:
  assumes "uqState s = NimbleServerUpdateQualityStateWorking" "monotonicTimeMsNow E w = (now, w1)"
    "lastTimeMs s \<le> now" "delta = word_of_int (now - lastTimeMs s)"
  shows "nimbleServerUpdateQualityTick E w s =
    Some (fst (updateQualityVerdict (updateQualityCount E delta now s)),
          snd (updateQualityVerdict (updateQualityCount E delta now s)), w1)"
  unfolding nimbleServerUpdateQualityTick_def assms(4) using assms(1-3)
  by (simp add: Let_def split_beta del: of_int_diff)

lemma updateQualityTicks_failed:
  "uqState s \<noteq> NimbleServerUpdateQualityStateWorking \<Longrightarrow>
   updateQualityTicks E w s n = Some (replicate n (-1), s)"
  by (induction n) (simp_all add: updateQualityTick_failed)

lemma updateQualityInit_follows:
  "nimbleServerUpdateQualityInit E w self target = (s, w1) \<Longrightarrow>
   followsClock E w1 s \<and> uqState s = NimbleServerUpdateQualityStateWorking \<and>
   targetTimeMs s = target \<and> deltaTickTimeFailedInARow s = 0 \<and> averageTickTimeFailedInARow s = 0 \<and>
   (\<exists>s0. measuredDeltaTimeMsStat s = statsIntInit E s0 10)"
  by (auto simp: nimbleServerUpdateQualityInit_def nimbleServerUpdateQualityReInit_def
      followsClock_def Let_def split: prod.splits)

lemma delta_word:
  assumes "t0 \<le> t1" "t1 - t0 < 2 ^ 64"
  shows "uint (word_of_int (t1 - t0) :: size_t) = t1 - t0"
  using assms by (intro word_of_int_inverse [OF refl]) simp_all

lemma lateClock_tick:
  assumes late: "lateClock E (targetTimeMs s)" and fol: "followsClock E w s"
    and work: "uqState s = NimbleServerUpdateQualityStateWorking"
    and cnt: "unat (deltaTickTimeFailedInARow s) \<le> 60"
  shows "\<exists>r s' w'. nimbleServerUpdateQualityTick E w s = Some (r, s', w') \<and>
    (uqState s' \<noteq> NimbleServerUpdateQualityStateWorking \<and> r = -1 \<or>
     uqState s' = NimbleServerUpdateQualityStateWorking \<and> followsClock E w' s' \<and>
     targetTimeMs s' = targetTimeMs s \<and> unat (deltaTickTimeFailedInARow s') \<le> 60 \<and>
     unat (deltaTickTimeFailedInARow s') = unat (deltaTickTimeFailedInARow s) + 1)"
proof -
  obtain t1 w1 where now: "monotonicTimeMsNow E w = (t1, w1)" by (cases "monotonicTimeMsNow E w")
  obtain w0 where w0: "monotonicTimeMsNow E w0 = (lastTimeMs s, w)"
    using fol by (auto simp: followsClock_def)
  have gap: "lastTimeMs s + uint (targetTimeMs s) < t1" "t1 - lastTimeMs s < 2 ^ 63"
    using late [unfolded lateClock_def, rule_format, of w0] now w0 by (simp_all add: Let_def)
  define delta where "delta = (word_of_int (t1 - lastTimeMs s) :: size_t)"
  have nn: "0 \<le> uint (targetTimeMs s)" by simp
  have "uint delta = t1 - lastTimeMs s"
    unfolding delta_def using gap nn by (intro delta_word) (linarith, simp)
  with gap(1) have big: "delta > targetTimeMs s" by (simp add: word_less_def)
  have inc: "unat (deltaTickTimeFailedInARow s + 1) = unat (deltaTickTimeFailedInARow s) + 1"
    using cnt by (intro unat_inc) simp
  show ?thesis
    using updateQualityTick_working [OF work now _ delta_def] now work big inc gap(1) nn
    by (auto simp: updateQualityVerdict_def followsClock_def not_less word_le_nat_alt)
qed

lemma lateClock_ticks:
  assumes "lateClock E (targetTimeMs s)" "followsClock E w s"
    "uqState s = NimbleServerUpdateQualityStateWorking"
    "unat (deltaTickTimeFailedInARow s) \<le> 60" "60 < unat (deltaTickTimeFailedInARow s) + n"
  shows "\<exists>rs s'. updateQualityTicks E w s n = Some (rs, s') \<and> length rs = n \<and> last rs = -1 \<and>
    uqState s' \<noteq> NimbleServerUpdateQualityStateWorking"
  using assms
proof (induction n arbitrary: w s)
  case 0
  then show ?case by simp
next
  case (Suc n)
  obtain r s1 w1 where tick: "nimbleServerUpdateQualityTick E w s = Some (r, s1, w1)"
    and alt: "uqState s1 \<noteq> NimbleServerUpdateQualityStateWorking \<and> r = -1 \<or>
     uqState s1 = NimbleServerUpdateQualityStateWorking \<and> followsClock E w1 s1 \<and>
     targetTimeMs s1 = targetTimeMs s \<and> unat (deltaTickTimeFailedInARow s1) \<le> 60 \<and>
     unat (deltaTickTimeFailedInARow s1) = unat (deltaTickTimeFailedInARow s) + 1"
    using lateClock_tick [OF Suc.prems(1-4)] by blast
  from alt show ?case
  proof
    assume f: "uqState s1 \<noteq> NimbleServerUpdateQualityStateWorking \<and> r = -1"
    then have "updateQualityTicks E w1 s1 n = Some (replicate n (-1), s1)"
      by (simp add: updateQualityTicks_failed)
    with tick f show ?thesis by (cases n) (auto simp del: updateQualityTicks.simps(2)
          simp: updateQualityTicks.simps(2) [of E w s])
  next
    assume g: "uqState s1 = NimbleServerUpdateQualityStateWorking \<and> followsClock E w1 s1 \<and>
     targetTimeMs s1 = targetTimeMs s \<and> unat (deltaTickTimeFailedInARow s1) \<le> 60 \<and>
     unat (deltaTickTimeFailedInARow s1) = unat (deltaTickTimeFailedInARow s) + 1"
    with Suc.prems Suc.IH [of s1 w1] obtain rs s' where
      "updateQualityTicks E w1 s1 n = Some (rs, s')" "length rs = n" "last rs = -1"
      "uqState s' \<noteq> NimbleServerUpdateQualityStateWorking" by auto
    moreover have "n \<noteq> 0" using g Suc.prems(5) by auto
    ultimately show ?thesis using tick by auto
  qed
qed

lemma punctual_ticks:
  assumes clock: "punctualClock E (targetTimeMs s)" and target: "uint (targetTimeMs s) < 2 ^ 31"
    and avg: "averageBounded E (int_of_size (targetTimeMs s)) low"
    and "low (measuredDeltaTimeMsStat s)" "followsClock E w s"
    "uqState s = NimbleServerUpdateQualityStateWorking" "averageTickTimeFailedInARow s = 0"
  shows "\<exists>s'. updateQualityTicks E w s n = Some (replicate n 0, s') \<and>
    uqState s' = NimbleServerUpdateQualityStateWorking"
  using assms
proof (induction n arbitrary: w s)
  case 0
  then show ?case by simp
next
  case (Suc n)
  obtain t1 w1 where now: "monotonicTimeMsNow E w = (t1, w1)" by (cases "monotonicTimeMsNow E w")
  obtain w0 where w0: "monotonicTimeMsNow E w0 = (lastTimeMs s, w)"
    using Suc.prems(5) by (auto simp: followsClock_def)
  have gap: "lastTimeMs s \<le> t1" "t1 \<le> lastTimeMs s + uint (targetTimeMs s)"
    using Suc.prems(1) [unfolded punctualClock_def, rule_format, of w0] now w0
    by (simp_all add: Let_def)
  define delta where "delta = (word_of_int (t1 - lastTimeMs s) :: size_t)"
  have "uint (targetTimeMs s) < 2 ^ 64" using uint_bounded [of "targetTimeMs s"] by simp
  with gap have "uint delta = t1 - lastTimeMs s"
    unfolding delta_def by (intro delta_word) linarith+
  with gap(2) have small: "uint delta \<le> uint (targetTimeMs s)" by simp
  with Suc.prems(2) have "int_of_size delta \<le> int_of_size (targetTimeMs s)"
    by (simp add: int_of_size_small)
  with Suc.prems(3,4)
  have low: "low (statsIntAdd E (measuredDeltaTimeMsStat s) (int_of_size delta))"
    by (simp add: averageBounded_def)
  let ?s1 = "updateQualityCount E delta t1 s"
  have avg: "averageTickTimeFailedInARow ?s1 = 0"
    using low Suc.prems(3,7) by (auto simp: updateQualityCount_def averageBounded_def Let_def not_less)
  have "\<not> delta > targetTimeMs s" using small by (simp add: word_less_def)
  then have tick: "nimbleServerUpdateQualityTick E w s = Some (0, ?s1, w1)"
    using updateQualityTick_working [OF Suc.prems(6) now gap(1) delta_def] avg
    by (simp add: updateQualityVerdict_def)
  have "followsClock E w1 ?s1" using now by (auto simp: followsClock_def)
  moreover have "low (measuredDeltaTimeMsStat ?s1)"
    using low by (simp add: updateQualityCount_def Let_def)
  ultimately show ?case using Suc.IH [of ?s1 w1] Suc.prems avg tick by auto
qed

section \<open>Properties\<close>

text \<open>
  C24. A host whose updates are all late stops: from initialisation, at the latest the 61st tick
  returns -1, and the quality is in a failed state from then on.
\<close>

theorem updateQuality_stops_late_host:
  assumes "lateClock E target" "nimbleServerUpdateQualityInit E w self target = (s, w1)"
  shows "\<exists>rs s'. updateQualityTicks E w1 s 61 = Some (rs, s') \<and> length rs = 61 \<and> last rs = -1 \<and>
    (\<forall>n w. updateQualityTicks E w s' n = Some (replicate n (-1), s'))"
proof -
  have s: "followsClock E w1 s" "uqState s = NimbleServerUpdateQualityStateWorking"
    "targetTimeMs s = target" "deltaTickTimeFailedInARow s = 0"
    using updateQualityInit_follows [OF assms(2)] by auto
  with assms(1) lateClock_ticks [of E s w1 61] show ?thesis
    by (auto simp: updateQualityTicks_failed)
qed

theorem updateQuality_stops_late_host_witness:
  "let E = demoEnv ClogFatal;
       self = \<lparr>lastTimeMs = 0, measuredDeltaTimeMsStat = \<lparr>statsAvg = 0, statsAvgIsSet = False, statsData = DNone\<rparr>,
               averageTickTimeFailedInARow = 0, deltaTickTimeFailedInARow = 0, targetTimeMs = 0,
               uqState = NimbleServerUpdateQualityStateWorking\<rparr>
   in \<exists>s w1 rs s'. nimbleServerUpdateQualityInit E (DWorld 0 [] []) self 16 = (s, w1) \<and>
        updateQualityTicks E w1 s 61 = Some (rs, s') \<and> last rs = -1"
proof -
  have late: "lateClock (demoEnv ClogFatal) 16" unfolding lateClock_def
  proof
    fix w :: demo
    show "let (t0, w0) = monotonicTimeMsNow (demoEnv ClogFatal) w;
        (t1, w1) = monotonicTimeMsNow (demoEnv ClogFatal) w0
      in t0 + uint (16 :: size_t) < t1 \<and> t1 - t0 < 2 ^ 63"
      by (cases w) (simp_all add: demoEnv_def Let_def)
  qed
  define self :: "demo NimbleServerUpdateQuality" where "self =
    \<lparr>lastTimeMs = 0, measuredDeltaTimeMsStat = \<lparr>statsAvg = 0, statsAvgIsSet = False, statsData = DNone\<rparr>,
     averageTickTimeFailedInARow = 0, deltaTickTimeFailedInARow = 0, targetTimeMs = 0,
     uqState = NimbleServerUpdateQualityStateWorking\<rparr>"
  obtain s w1 where "nimbleServerUpdateQualityInit (demoEnv ClogFatal) (DWorld 0 [] []) self 16 = (s, w1)"
    by fastforce
  with updateQuality_stops_late_host [OF late this] show ?thesis unfolding Let_def self_def by blast
qed

text \<open>
  C33. A punctual host is never stopped: if readings of the clock are never more than the target
  apart, every tick returns 0, however many there are.
\<close>

theorem updateQuality_keeps_punctual_host:
  assumes "punctualClock E target" "uint target < 2 ^ 31" "averageBounded E (int_of_size target) low"
    "nimbleServerUpdateQualityInit E w self target = (s, w1)"
  shows "\<exists>s'. updateQualityTicks E w1 s n = Some (replicate n 0, s') \<and>
    uqState s' = NimbleServerUpdateQualityStateWorking"
proof -
  have s: "followsClock E w1 s" "uqState s = NimbleServerUpdateQualityStateWorking"
    "targetTimeMs s = target" "averageTickTimeFailedInARow s = 0"
    "\<exists>s0. measuredDeltaTimeMsStat s = statsIntInit E s0 10"
    using updateQualityInit_follows [OF assms(4)] by auto
  from s(5) assms(3) have "low (measuredDeltaTimeMsStat s)" by (auto simp: averageBounded_def)
  with s assms(1-3) punctual_ticks [of E s low w1 n] show ?thesis by simp
qed

theorem updateQuality_keeps_punctual_host_witness:
  "let E = demoEnv ClogFatal;
       self = \<lparr>lastTimeMs = 0, measuredDeltaTimeMsStat = \<lparr>statsAvg = 0, statsAvgIsSet = False, statsData = DNone\<rparr>,
               averageTickTimeFailedInARow = 0, deltaTickTimeFailedInARow = 0, targetTimeMs = 0,
               uqState = NimbleServerUpdateQualityStateWorking\<rparr>
   in \<exists>s w1 s'. nimbleServerUpdateQualityInit E (DWorld 0 [] []) self 100 = (s, w1) \<and>
        updateQualityTicks E w1 s 1000 = Some (replicate 1000 0, s')"
proof -
  have clock: "punctualClock (demoEnv ClogFatal) 100" unfolding punctualClock_def
  proof
    fix w :: demo
    show "let (t0, w0) = monotonicTimeMsNow (demoEnv ClogFatal) w;
        (t1, w1) = monotonicTimeMsNow (demoEnv ClogFatal) w0
      in t0 \<le> t1 \<and> t1 \<le> t0 + uint (100 :: size_t)"
      by (cases w) (simp_all add: demoEnv_def Let_def)
  qed
  have avg: "averageBounded (demoEnv ClogFatal) (int_of_size 100) (\<lambda>s. statsAvg s \<le> 100)"
    by (simp add: averageBounded_def demoEnv_def demoStatsAdd_def int_of_size_small)
  have target: "uint (100 :: size_t) < 2 ^ 31" by simp
  define self :: "demo NimbleServerUpdateQuality" where "self =
    \<lparr>lastTimeMs = 0, measuredDeltaTimeMsStat = \<lparr>statsAvg = 0, statsAvgIsSet = False, statsData = DNone\<rparr>,
     averageTickTimeFailedInARow = 0, deltaTickTimeFailedInARow = 0, targetTimeMs = 0,
     uqState = NimbleServerUpdateQualityStateWorking\<rparr>"
  obtain s w1 where "nimbleServerUpdateQualityInit (demoEnv ClogFatal) (DWorld 0 [] []) self 100 = (s, w1)"
    by fastforce
  with updateQuality_keeps_punctual_host [OF clock target avg this, of 1000]
  show ?thesis unfolding Let_def self_def by blast
qed

end
