(* ===== verification/Participants.thy ===== *)
theory Participants
  imports CircularBuffer DemoEnv
begin

text \<open>
  The participants of a game: \<open>src/src/lib/participant.c\<close>, \<open>participants.c\<close> and
  \<open>participant_references.c\<close>. Pointers are indices: a \<open>NimbleServerParticipant*\<close> is its position
  in the array of the collection, a \<open>NimbleServerLocalParty*\<close> its position in the array of parties,
  \<open>None\<close> the null or never assigned pointer.
\<close>

section \<open>A participant\<close>

datatype NimbleServerParticipantState =
    NimbleServerParticipantStateJustJoined
  | NimbleServerParticipantStateNormal
  | NimbleServerParticipantStateWaitingForRejoin
  | NimbleServerParticipantStateLeaving
  | NimbleServerParticipantStateDestroyed

record 'x NimbleServerParticipant =
  pLocalIndex :: size_t
  pId :: u8
  pIsUsed :: bool
  pSteps :: "'x NbsSteps"
  pInParty :: "nat option"
  pState :: NimbleServerParticipantState

definition nimbleServerParticipantInit ::
  "'x Env \<Rightarrow> 'x NimbleServerParticipant \<Rightarrow> u8 \<Rightarrow> size_t \<Rightarrow> 'x NimbleServerParticipant" where
  "nimbleServerParticipantInit E self ident maxStepOctetSizeForOneParticipant =
     self\<lparr>pId := ident, pIsUsed := False, pState := NimbleServerParticipantStateDestroyed,
          pSteps := nbsStepsInit E (pSteps self) maxStepOctetSizeForOneParticipant\<rparr>"

definition nimbleServerParticipantReInit ::
  "'x Env \<Rightarrow> 'x NimbleServerParticipant \<Rightarrow> nat option \<Rightarrow> StepId \<Rightarrow> 'x NimbleServerParticipant option" where
  "nimbleServerParticipantReInit E self party currentAuthoritativeStepId = do {
     clogAssert (clogMode E) (party \<noteq> None);
     Some (self\<lparr>pSteps := nbsStepsReInit E (pSteps self) currentAuthoritativeStepId,
                pInParty := party, pIsUsed := True,
                pState := NimbleServerParticipantStateJustJoined\<rparr>)
   }"

definition nimbleServerParticipantDestroy :: "'x NimbleServerParticipant \<Rightarrow> 'x NimbleServerParticipant" where
  "nimbleServerParticipantDestroy self =
     self\<lparr>pIsUsed := False, pInParty := None, pLocalIndex := 0,
          pState := NimbleServerParticipantStateDestroyed\<rparr>"

definition nimbleServerParticipantMarkAsLeaving ::
  "'x NimbleServerParticipant \<Rightarrow> 'x NimbleServerParticipant" where
  "nimbleServerParticipantMarkAsLeaving self = self\<lparr>pState := NimbleServerParticipantStateLeaving\<rparr>"

definition nimbleServerParticipantDeserializeSingleStep ::
  "'x Env \<Rightarrow> 'x NimbleServerParticipant \<Rightarrow> StepId \<Rightarrow> 'x FldInStream \<Rightarrow>
   int \<times> 'x NimbleServerParticipant \<times> 'x FldInStream" where
  "nimbleServerParticipantDeserializeSingleStep E self stepId inStream =
     (let (r, inStream1, steps) = nbsStepsInSerializeSinglePredictedStep E inStream stepId (pSteps self)
      in (r, self\<lparr>pSteps := steps\<rparr>, inStream1))"

section \<open>References to participants\<close>

record NimbleServerParticipantReferences =
  participantReferenceCount :: size_t
  participantReferences :: "nat option list"

text \<open>Reading the pointer at a position and following it into the array of participants.\<close>

definition derefParticipant ::
  "'x NimbleServerParticipant list \<Rightarrow> NimbleServerParticipantReferences \<Rightarrow> nat \<Rightarrow>
   (nat \<times> 'x NimbleServerParticipant) option" where
  "derefParticipant ps refs i = do {
     ptr \<leftarrow> readAt (participantReferences refs) i;
     k \<leftarrow> ptr;
     p \<leftarrow> readAt ps k;
     Some (k, p)
   }"

text \<open>The loop of \<open>nimbleParticipantReferencesFind\<close> from position \<open>i\<close>, with \<open>n\<close> positions to go.\<close>

fun participantReferencesFindFrom ::
  "'x NimbleServerParticipant list \<Rightarrow> NimbleServerParticipantReferences \<Rightarrow> u8 \<Rightarrow> nat \<Rightarrow> nat \<Rightarrow> nat option option" where
  "participantReferencesFindFrom ps refs participantId i 0 = Some None"
| "participantReferencesFindFrom ps refs participantId i (Suc n) = do {
     (k, p) \<leftarrow> derefParticipant ps refs i;
     if pId p = participantId then Some (Some k)
     else participantReferencesFindFrom ps refs participantId (Suc i) n
   }"

definition nimbleParticipantReferencesFind ::
  "'x NimbleServerParticipant list \<Rightarrow> NimbleServerParticipantReferences \<Rightarrow> u8 \<Rightarrow> nat option option" where
  "nimbleParticipantReferencesFind ps self participantId =
     participantReferencesFindFrom ps self participantId 0 (unat (participantReferenceCount self))"

section \<open>The collection\<close>

record 'x NimbleServerParticipants =
  participants :: "'x NimbleServerParticipant list"
  participantCapacity :: size_t
  participantCount :: size_t
  freeList :: NimbleServerCircularBuffer

text \<open>What \<open>IMPRINT_CALLOC_TYPE_COUNT\<close> gives: a participant in zeroed memory.\<close>

definition zeroedParticipant :: "'x Env \<Rightarrow> 'x NimbleServerParticipant" where
  "zeroedParticipant E =
     \<lparr>pLocalIndex = 0, pId = 0, pIsUsed = False,
      pSteps = \<lparr>expectedReadId = 0, expectedWriteId = 0, stepsCount = 0, stepsData = zeroData E\<rparr>,
      pInParty = None, pState = NimbleServerParticipantStateJustJoined\<rparr>"

text \<open>
  The loop over \<open>uint8_t i\<close> ends only if \<open>maxCount\<close> is at most 255; otherwise the function does
  not return.
\<close>

definition nimbleServerParticipantsInit ::
  "'x Env \<Rightarrow> 'x NimbleServerParticipants \<Rightarrow> size_t \<Rightarrow> size_t \<Rightarrow> 'x NimbleServerParticipants option" where
  "nimbleServerParticipantsInit E self maxCount maxStepOctetSize = do {
     clogAssert (clogMode E) (maxCount > 0);
     let fl0 = nimbleServerCircularBufferInit (freeList self);
     clogAssert (clogMode E) (maxCount < NIMBLE_SERVER_CIRCULAR_BUFFER_SIZE);
     fl \<leftarrow> runAll (nimbleServerCircularBufferWrite (clogMode E)) fl0 (map of_nat [0..<unat maxCount]);
     ps \<leftarrow> (if maxCount \<le> 255
            then Some (map (\<lambda>i. nimbleServerParticipantInit E (zeroedParticipant E) (of_nat i) maxStepOctetSize)
                         [0..<unat maxCount])
            else None);
     p0 \<leftarrow> (if clogMode E = ClogFatal then map_option (\<lambda>p. \<not> pIsUsed p) (readAt ps 0) else Some True);
     clogAssert (clogMode E) p0;
     Some (self\<lparr>participantCapacity := maxCount, participants := ps, participantCount := 0, freeList := fl\<rparr>)
   }"

definition nimbleServerParticipantsDestroy ::
  "clog \<Rightarrow> 'x NimbleServerParticipants \<Rightarrow> u8 \<Rightarrow> 'x NimbleServerParticipants option" where
  "nimbleServerParticipantsDestroy c self participantId = do {
     clogAssert c (participantCount self > 0);
     clogErrorIf c (ucast participantId \<ge> participantCapacity self);
     participant \<leftarrow> readAt (participants self) (unat participantId);
     clogErrorIf c (\<not> pIsUsed participant);
     fl \<leftarrow> nimbleServerCircularBufferWrite c (freeList self) participantId;
     Some (self\<lparr>participantCount := participantCount self - 1, freeList := fl,
                participants := (participants self)[unat participantId :=
                  nimbleServerParticipantDestroy participant]\<rparr>)
   }"

definition NimbleServerErrSessionFull :: int where
  "NimbleServerErrSessionFull = -54"

definition nimbleServerParticipantsPrepare ::
  "'x Env \<Rightarrow> 'x NimbleServerParticipants \<Rightarrow> u8 \<Rightarrow> nat option \<Rightarrow> StepId \<Rightarrow>
   (int \<times> nat option \<times> 'x NimbleServerParticipants) option" where
  "nimbleServerParticipantsPrepare E self participantId party currentAuthoritativeStepId =
     (if participantCount self + 1 > participantCapacity self
      then Some (NimbleServerErrSessionFull, None, self)
      else do {
        clogErrorIf (clogMode E) (ucast participantId \<ge> participantCapacity self);
        participant \<leftarrow> readAt (participants self) (unat participantId);
        if pIsUsed participant then Some (-2, None, self)
        else do {
          p1 \<leftarrow> nimbleServerParticipantReInit E participant party currentAuthoritativeStepId;
          let p2 = p1\<lparr>pLocalIndex := 0, pIsUsed := True,
                      pState := NimbleServerParticipantStateWaitingForRejoin, pId := participantId\<rparr>;
          Some (0, Some (unat participantId),
            self\<lparr>participants := (participants self)[unat participantId := p2],
                 participantCount := participantCount self + 1\<rparr>)
        }
      })"

definition nimbleServerParticipantsFind :: "'x NimbleServerParticipants \<Rightarrow> u8 \<Rightarrow> nat option" where
  "nimbleServerParticipantsFind self participantId =
     (if ucast participantId \<ge> participantCapacity self then None else Some (unat participantId))"

text \<open>\<open>results\<close> is the caller's array of participant pointers.\<close>

definition nimbleServerParticipantsJoin ::
  "'x Env \<Rightarrow> 'x NimbleServerParticipants \<Rightarrow> size_t list \<Rightarrow> size_t \<Rightarrow> nat option \<Rightarrow> StepId \<Rightarrow>
   nat option list \<Rightarrow> (int \<times> nat option list \<times> 'x NimbleServerParticipants) option" where
  "nimbleServerParticipantsJoin E self localPlayers localParticipantCount party expectedStepId results = do {
     clogAssert (clogMode E) (localParticipantCount = 1);
     if participantCount self + localParticipantCount > participantCapacity self
     then Some (NimbleServerErrSessionFull, results, self)
     else do {
       (participantId, fl) \<leftarrow> nimbleServerCircularBufferRead (clogMode E) (freeList self);
       clogErrorIf (clogMode E) (ucast participantId \<ge> participantCapacity self);
       participant \<leftarrow> readAt (participants self) (unat participantId);
       clogErrorIf (clogMode E) (pIsUsed participant);
       p1 \<leftarrow> nimbleServerParticipantReInit E participant party expectedStepId;
       localPlayer \<leftarrow> readAt localPlayers 0;
       let p2 = p1\<lparr>pLocalIndex := localPlayer, pIsUsed := True,
                   pState := NimbleServerParticipantStateJustJoined, pId := participantId\<rparr>;
       results1 \<leftarrow> writeAt results 0 (Some (unat participantId));
       clogErrorIf (clogMode E) (1 \<noteq> localParticipantCount);
       Some (0, results1,
         self\<lparr>freeList := fl, participants := (participants self)[unat participantId := p2],
              participantCount := participantCount self + 1\<rparr>)
     }
   }"

section \<open>Invariant\<close>

text \<open>
  \<open>participantsShape\<close>: the array has its capacity, the counter counts the slots in use, and each
  participant carries its own position as id. \<open>participantsWf\<close> adds that the free list holds
  exactly the ids of the slots not in use.
\<close>

definition usedIds :: "'x NimbleServerParticipants \<Rightarrow> nat set" where
  "usedIds ps = {i. i < length (participants ps) \<and> pIsUsed (participants ps ! i)}"

definition participantsShape :: "'x NimbleServerParticipants \<Rightarrow> bool" where
  "participantsShape ps \<longleftrightarrow>
     length (participants ps) = unat (participantCapacity ps) \<and> participantCapacity ps < 64 \<and>
     unat (participantCount ps) = card (usedIds ps) \<and>
     (\<forall>i < length (participants ps). unat (pId (participants ps ! i)) = i)"

definition participantsWf :: "'x NimbleServerParticipants \<Rightarrow> bool" where
  "participantsWf ps \<longleftrightarrow> participantsShape ps \<and>
     ringPool (unat (participantCapacity ps)) (freeList ps) (usedIds ps)"

text \<open>The participant a successful join leaves in its slot.\<close>

definition joinedParticipant ::
  "'x Env \<Rightarrow> 'x NimbleServerParticipant \<Rightarrow> nat \<Rightarrow> StepId \<Rightarrow> size_t \<Rightarrow> u8 \<Rightarrow> 'x NimbleServerParticipant" where
  "joinedParticipant E p party stepId player ident =
     p\<lparr>pSteps := nbsStepsReInit E (pSteps p) stepId, pInParty := Some party, pLocalIndex := player,
       pIsUsed := True, pState := NimbleServerParticipantStateJustJoined, pId := ident\<rparr>"

text \<open>
  The histories of a collection: initialisation, then joins of one player and removals of
  participants in use, in any order.
\<close>

inductive rosterReachable :: "'x Env \<Rightarrow> size_t \<Rightarrow> 'x NimbleServerParticipants \<Rightarrow> bool"
  for E :: "'x Env" and maxCount :: size_t where
  init: "length (cbData (freeList self)) = 64 \<Longrightarrow>
    nimbleServerParticipantsInit E self maxCount octetSize = Some ps \<Longrightarrow> rosterReachable E maxCount ps"
| join: "rosterReachable E maxCount ps \<Longrightarrow> players \<noteq> [] \<Longrightarrow> results \<noteq> [] \<Longrightarrow>
    nimbleServerParticipantsJoin E ps players 1 (Some party) stepId results = Some (r, results', ps') \<Longrightarrow>
    rosterReachable E maxCount ps'"
| leave: "rosterReachable E maxCount ps \<Longrightarrow> unat x \<in> usedIds ps \<Longrightarrow>
    nimbleServerParticipantsDestroy (clogMode E) ps x = Some ps' \<Longrightarrow> rosterReachable E maxCount ps'"

text \<open>A concrete collection before initialisation.\<close>

definition blankRoster :: "demo NimbleServerParticipants" where
  "blankRoster = \<lparr>participants = [], participantCapacity = 0, participantCount = 0, freeList = emptyRing\<rparr>"

section \<open>Lemmas\<close>

lemma finite_usedIds [simp]: "finite (usedIds ps)"
  by (simp add: usedIds_def)

lemma usedIds_subset: "usedIds ps \<subseteq> {0..<length (participants ps)}"
  by (auto simp: usedIds_def)

lemma card_usedIds_le: "card (usedIds ps) \<le> length (participants ps)"
  using card_mono [OF _ usedIds_subset, of ps] by simp

lemma usedIds_set_used:
  "i < length (participants ps) \<Longrightarrow> pIsUsed p \<Longrightarrow>
   usedIds (ps\<lparr>participants := (participants ps)[i := p]\<rparr>) = insert i (usedIds ps)"
  by (auto simp: usedIds_def nth_list_update)

lemma usedIds_set_unused:
  "i < length (participants ps) \<Longrightarrow> \<not> pIsUsed p \<Longrightarrow>
   usedIds (ps\<lparr>participants := (participants ps)[i := p]\<rparr>) = usedIds ps - {i}"
  by (auto simp: usedIds_def nth_list_update split: if_splits)

lemma usedIds_frame [simp]:
  "usedIds (ps\<lparr>participantCount := n\<rparr>) = usedIds ps"
  "usedIds (ps\<lparr>freeList := fl\<rparr>) = usedIds ps"
  "usedIds (ps\<lparr>participantCapacity := m\<rparr>) = usedIds ps"
  by (simp_all add: usedIds_def)

text \<open>Taking a slot that is not in use, and giving back one that is.\<close>

lemma participantsShape_take:
  assumes sh: "participantsShape ps" and i: "i < length (participants ps)" "i \<notin> usedIds ps"
    and p: "pIsUsed p" "unat (pId p) = i"
  shows "participantsShape (ps\<lparr>freeList := fl, participants := (participants ps)[i := p],
      participantCount := participantCount ps + 1\<rparr>)"
proof -
  have c: "card (usedIds ps) + 1 \<le> length (participants ps)"
    using i card_mono [of "{0..<length (participants ps)}" "insert i (usedIds ps)"] usedIds_subset [of ps]
    by auto
  then have "unat (participantCount ps + 1) = card (usedIds ps) + 1"
    using sh by (subst unat_inc) (auto simp: participantsShape_def word_less_nat_alt)
  moreover have "usedIds (ps\<lparr>freeList := fl, participants := (participants ps)[i := p]\<rparr>) =
      insert i (usedIds ps)"
    using usedIds_set_used [of i "ps\<lparr>freeList := fl\<rparr>" p] i p by simp
  ultimately show ?thesis
    using sh i p by (auto simp: participantsShape_def nth_list_update)
qed

lemma participantsShape_free:
  assumes sh: "participantsShape ps" and i: "i \<in> usedIds ps"
    and p: "\<not> pIsUsed p" "unat (pId p) = i"
  shows "participantsShape (ps\<lparr>participantCount := participantCount ps - 1, freeList := fl,
      participants := (participants ps)[i := p]\<rparr>)"
proof -
  have pos: "card (usedIds ps) > 0" using i by (auto simp: card_gt_0_iff)
  with sh have "participantCount ps \<noteq> 0" by (auto simp: participantsShape_def)
  then have "unat (participantCount ps - 1) = card (usedIds ps) - 1"
    using sh by (simp add: participantsShape_def unat_minus_one)
  moreover have "card (usedIds ps - {i}) = card (usedIds ps) - 1" using i by simp
  moreover have l: "i < length (participants ps)" using i by (simp add: usedIds_def)
  moreover have "usedIds (ps\<lparr>participantCount := participantCount ps - 1, freeList := fl,
      participants := (participants ps)[i := p]\<rparr>) = usedIds ps - {i}"
    using usedIds_set_unused [of i "ps\<lparr>participantCount := participantCount ps - 1, freeList := fl\<rparr>" p] l p
    by simp
  ultimately show ?thesis
    using sh p by (auto simp: participantsShape_def nth_list_update)
qed

lemma participantsJoin_full:
  assumes "participantsShape ps" "card (usedIds ps) = unat (participantCapacity ps)"
  shows "nimbleServerParticipantsJoin E ps players 1 party stepId results =
    Some (NimbleServerErrSessionFull, results, ps)"
proof -
  have "unat (participantCount ps + 1) = unat (participantCount ps) + 1"
    using assms by (intro unat_inc) (simp add: participantsShape_def word_less_nat_alt)
  with assms have "participantCount ps + 1 > participantCapacity ps"
    by (simp add: participantsShape_def word_less_nat_alt)
  then show ?thesis by (simp add: nimbleServerParticipantsJoin_def)
qed

lemma participantsJoin_room:
  assumes wf: "participantsWf ps" and room: "card (usedIds ps) < unat (participantCapacity ps)"
    and res: "results \<noteq> []"
  shows "\<exists>i fl ps'. nimbleServerParticipantsJoin E ps (player # players) 1 (Some party) stepId results =
      Some (0, results[0 := Some i], ps') \<and>
    ps' = ps\<lparr>freeList := fl,
            participants := (participants ps)[i := joinedParticipant E (participants ps ! i) party stepId
                 player (of_nat i)],
            participantCount := participantCount ps + 1\<rparr> \<and>
    i < length (participants ps) \<and> i \<notin> usedIds ps \<and> participantsWf ps' \<and>
    usedIds ps' = insert i (usedIds ps)"
proof -
  have sh: "participantsShape ps" and pool: "ringPool (unat (participantCapacity ps)) (freeList ps) (usedIds ps)"
    using wf by (auto simp: participantsWf_def)
  obtain x fl where x: "nimbleServerCircularBufferRead (clogMode E) (freeList ps) = Some (x, fl)"
    "unat x < unat (participantCapacity ps)" "unat x \<notin> usedIds ps"
    "ringPool (unat (participantCapacity ps)) fl (insert (unat x) (usedIds ps))"
    using ring_pool.pool_alloc [OF pool room] by blast
  have len: "length (participants ps) = unat (participantCapacity ps)" and cap: "participantCapacity ps < 64"
    and cnt: "unat (participantCount ps) = card (usedIds ps)" using sh by (auto simp: participantsShape_def)
  have "unat (participantCount ps + 1) = unat (participantCount ps) + 1"
    using cnt room cap by (intro unat_inc) (simp add: word_less_nat_alt)
  then have notfull: "\<not> participantCount ps + 1 > participantCapacity ps"
    using cnt room by (simp add: word_less_nat_alt)
  have unused: "\<not> pIsUsed (participants ps ! unat x)" using x(2,3) len by (simp add: usedIds_def)
  define p where "p = joinedParticipant E (participants ps ! unat x) party stepId player x"
  let ?ps' = "ps\<lparr>freeList := fl, participants := (participants ps)[unat x := p],
            participantCount := participantCount ps + 1\<rparr>"
  have run: "nimbleServerParticipantsJoin E ps (player # players) 1 (Some party) stepId results =
      Some (0, results[0 := Some (unat x)], ?ps')"
    using x notfull unused len res
    by (simp add: nimbleServerParticipantsJoin_def nimbleServerParticipantReInit_def Let_def p_def
        joinedParticipant_def)
  have p: "pIsUsed p" "unat (pId p) = unat x" by (simp_all add: p_def joinedParticipant_def)
  have used: "usedIds ?ps' = insert (unat x) (usedIds ps)"
    using usedIds_set_used [of "unat x" "ps\<lparr>freeList := fl\<rparr>" p] x(2) len p by simp
  have "participantsShape ?ps'" using participantsShape_take [OF sh _ x(3) p] x(2) len by simp
  with used x(4) have "participantsWf ?ps'" by (simp add: participantsWf_def)
  with run used x(2,3) len p_def show ?thesis
    by (intro exI [of _ "unat x"] exI [of _ fl] exI [of _ ?ps']) simp
qed

lemma participantsDestroy_used:
  assumes wf: "participantsWf ps" and x: "unat x \<in> usedIds ps"
  shows "\<exists>ps'. nimbleServerParticipantsDestroy c ps x = Some ps' \<and> participantsWf ps' \<and>
    usedIds ps' = usedIds ps - {unat x} \<and>
    participants ps' = (participants ps)[unat x := nimbleServerParticipantDestroy (participants ps ! unat x)] \<and>
    participantCapacity ps' = participantCapacity ps"
proof -
  have sh: "participantsShape ps" and pool: "ringPool (unat (participantCapacity ps)) (freeList ps) (usedIds ps)"
    using wf by (auto simp: participantsWf_def)
  have len: "length (participants ps) = unat (participantCapacity ps)" and cap: "participantCapacity ps < 64"
    and cnt: "unat (participantCount ps) = card (usedIds ps)" using sh by (auto simp: participantsShape_def)
  have i: "unat x < length (participants ps)" "pIsUsed (participants ps ! unat x)"
    using x by (auto simp: usedIds_def)
  obtain fl where fl: "nimbleServerCircularBufferWrite c (freeList ps) x = Some fl"
    "ringPool (unat (participantCapacity ps)) fl (usedIds ps - {unat x})"
    using ring_pool.pool_release [OF pool x] cap by (auto simp: word_less_nat_alt)
  have "card (usedIds ps) > 0" using x by (auto simp: card_gt_0_iff)
  then have pos: "participantCount ps > 0" using cnt by (simp add: word_less_nat_alt)
  let ?p = "nimbleServerParticipantDestroy (participants ps ! unat x)"
  let ?ps' = "ps\<lparr>participantCount := participantCount ps - 1, freeList := fl,
                participants := (participants ps)[unat x := ?p]\<rparr>"
  have run: "nimbleServerParticipantsDestroy c ps x = Some ?ps'"
    using pos i fl len by (simp add: nimbleServerParticipantsDestroy_def)
  have p: "\<not> pIsUsed ?p" "unat (pId ?p) = unat x"
    using sh i by (simp_all add: nimbleServerParticipantDestroy_def participantsShape_def)
  have used: "usedIds ?ps' = usedIds ps - {unat x}"
    using usedIds_set_unused [of "unat x" "ps\<lparr>participantCount := participantCount ps - 1, freeList := fl\<rparr>" ?p] i p
    by simp
  have "participantsShape ?ps'" by (rule participantsShape_free [OF sh x p])
  with used fl have "participantsWf ?ps'" by (simp add: participantsWf_def)
  with run used show ?thesis by auto
qed

lemma participantsInit_spec:
  assumes data: "length (cbData (freeList self)) = 64" and n: "0 < maxCount" "maxCount < 64"
  shows "\<exists>ps. nimbleServerParticipantsInit E self maxCount octetSize = Some ps \<and> participantsWf ps \<and>
    usedIds ps = {} \<and> participantCapacity ps = maxCount \<and> participantCount ps = 0 \<and>
    cbContents (freeList ps) = map of_nat [0..<unat maxCount]"
proof -
  let ?n = "unat maxCount" and ?fl0 = "nimbleServerCircularBufferInit (freeList self)"
  let ?ids = "map of_nat [0..<?n] :: u8 list"
  have bound: "?n < 64" "0 < ?n" using n by (simp_all add: word_less_nat_alt)
  have inj: "inj_on (of_nat :: nat \<Rightarrow> u8) {0..<?n}"
    using bound by (auto intro!: inj_on_inverseI [where g = unat])
  have "unat ` set ?ids = {0..<?n} - {}"
    using bound by (force simp: image_image)
  with inj bound data obtain fl where
    fl: "runAll (nimbleServerCircularBufferWrite (clogMode E)) ?fl0 ?ids = Some fl" "cbContents fl = ?ids"
      "ringPool ?n fl {}"
    using ring_pool.pool_fill [of ?fl0 ?ids ?n "{}" "clogMode E"]
    by (auto simp: distinct_map)
  let ?ps = "map (\<lambda>i. nimbleServerParticipantInit E (zeroedParticipant E) (of_nat i) octetSize) [0..<?n]"
  let ?r = "self\<lparr>participantCapacity := maxCount, participants := ?ps, participantCount := 0, freeList := fl\<rparr>"
  have le: "maxCount \<le> 255" using n(2) by (simp add: word_less_nat_alt word_le_nat_alt)
  have first: "readAt ?ps 0 = Some (nimbleServerParticipantInit E (zeroedParticipant E) (of_nat 0) octetSize)"
    using bound by (simp add: readAt_def)
  have run: "nimbleServerParticipantsInit E self maxCount octetSize = Some ?r"
    using n fl(1) le first
    by (simp add: nimbleServerParticipantsInit_def Let_def nimbleServerParticipantInit_def)
  have used: "usedIds ?r = {}" by (auto simp: usedIds_def nimbleServerParticipantInit_def)
  then have "participantsShape ?r"
    using n bound by (simp add: participantsShape_def nimbleServerParticipantInit_def)
  with used fl(3) have "participantsWf ?r" by (simp add: participantsWf_def)
  with run used fl(2) show ?thesis by auto
qed

lemma participantsJoin_wf:
  assumes "participantsWf ps" "players \<noteq> []" "results \<noteq> []"
    "nimbleServerParticipantsJoin E ps players 1 (Some party) stepId results = Some (r, results', ps')"
  shows "participantsWf ps'"
proof (cases "card (usedIds ps) < unat (participantCapacity ps)")
  case True
  obtain q qs where "players = q # qs" using assms(2) by (cases players) auto
  with participantsJoin_room [OF assms(1) True assms(3), of E q qs party stepId] assms(4)
  show ?thesis by auto
next
  case False
  moreover have "card (usedIds ps) \<le> unat (participantCapacity ps)"
    using card_usedIds_le [of ps] assms(1) by (simp add: participantsWf_def participantsShape_def)
  ultimately have "card (usedIds ps) = unat (participantCapacity ps)" by simp
  with participantsJoin_full [of ps E players "Some party" stepId results] assms(1,4)
  show ?thesis by (simp add: participantsWf_def)
qed

lemma demoRoster:
  "\<exists>ps. nimbleServerParticipantsInit (demoEnv c) blankRoster 4 20 = Some ps \<and> participantsWf ps \<and>
    usedIds ps = {} \<and> participantCapacity ps = 4"
  using participantsInit_spec [of blankRoster 4 "demoEnv c" 20]
  by (auto simp: blankRoster_def emptyRing_def)

section \<open>Properties\<close>





text \<open>
  C34. Removing a participant in use returns in both builds, clears exactly its slot, and its id is
  the only new entry of the free list.
\<close>

theorem participantsDestroy_releases_slot:
  assumes "participantsWf ps" "unat x < length (participants ps)" "pIsUsed (participants ps ! unat x)"
  shows "\<exists>ps'. nimbleServerParticipantsDestroy c ps x = Some ps' \<and> participantsWf ps' \<and>
    participants ps' = (participants ps)[unat x := nimbleServerParticipantDestroy (participants ps ! unat x)] \<and>
    set (cbContents (freeList ps')) = insert x (set (cbContents (freeList ps)))"
proof -
  have x: "unat x \<in> usedIds ps" using assms(2,3) by (simp add: usedIds_def)
  obtain ps' where d: "nimbleServerParticipantsDestroy c ps x = Some ps'" "participantsWf ps'"
    "usedIds ps' = usedIds ps - {unat x}"
    "participants ps' = (participants ps)[unat x := nimbleServerParticipantDestroy (participants ps ! unat x)]"
    "participantCapacity ps' = participantCapacity ps"
    using participantsDestroy_used [OF assms(1) x] by blast
  have "unat ` set (cbContents (freeList ps')) = insert (unat x) (unat ` set (cbContents (freeList ps)))"
    using assms(1) d x usedIds_subset [of ps]
    by (auto simp: participantsWf_def idPool_def participantsShape_def)
  then have "unat ` set (cbContents (freeList ps')) = unat ` insert x (set (cbContents (freeList ps)))"
    by simp
  then have "set (cbContents (freeList ps')) = insert x (set (cbContents (freeList ps)))"
    by (rule inj_image_eq_iff [THEN iffD1, OF ring_pool.inj_idOf])
  with d show ?thesis by blast
qed

theorem participantsDestroy_releases_slot_witness:
  "\<exists>(ps :: demo NimbleServerParticipants) x ps'. participantsWf ps \<and> pIsUsed (participants ps ! unat x) \<and>
     nimbleServerParticipantsDestroy ClogFatal ps x = Some ps' \<and> participantsWf ps'"
proof -
  obtain ps :: "demo NimbleServerParticipants" where ps: "participantsWf ps" "usedIds ps = {}" "participantCapacity ps = (4 :: size_t)"
    using demoRoster by blast
  then obtain i fl ps' where j: "i < length (participants ps)" "participantsWf ps'"
    "usedIds ps' = insert i (usedIds ps)" "participants ps' = (participants ps)[i :=
      joinedParticipant (demoEnv ClogFatal) (participants ps ! i) 0 9 3 (of_nat i)]"
    using participantsJoin_room [OF ps(1), of "[None]" "demoEnv ClogFatal" 3 "[]" 0 9] by auto
  have i: "unat (of_nat i :: u8) = i"
    using j(1) ps by (simp add: participantsWf_def participantsShape_def)
  have "pIsUsed (participants ps' ! i)" "i < length (participants ps')"
    using j by (simp_all add: joinedParticipant_def)
  with participantsDestroy_releases_slot [OF j(2), of "of_nat i" ClogFatal] i j(2) show ?thesis
    by (metis (no_types, lifting))
qed

end
