(* ===== verification/LocalParty.thy ===== *)
theory LocalParty
  imports Participants ConnectionQuality
begin

text \<open>
  A local party, the participants that joined from one device: \<open>src/src/lib/local_party.c\<close>. The
  functions that follow the party's references take the array of participants as an argument. A
  \<open>NimbleServerTransportConnection*\<close> is its position in the server's array of connections.
\<close>

section \<open>The party\<close>

datatype NimbleServerLocalPartyState =
    NimbleServerLocalPartyStateNormal
  | NimbleServerLocalPartyStateWaitingForReJoin
  | NimbleServerLocalPartyStateDissolved

record 'x NimbleServerLocalParty =
  lpId :: u8
  lpIsUsed :: bool
  lpState :: NimbleServerLocalPartyState
  lpReferences :: NimbleServerParticipantReferences
  lpIncomingStepCountInBufferStats :: "'x StatsInt"
  lpTransportConnection :: "nat option"
  lpWaitingForReconnectTimer :: size_t
  lpWaitingForReconnectMaxTimer :: size_t
  lpQuality :: NimbleServerConnectionQuality
  lpDelayedQuality :: NimbleServerConnectionQualityDelayed
  lpWarningCount :: u32
  lpWarningAboutZeroAddedSteps :: u32
  lpHighestReceivedStepId :: StepId
  lpStepsInBufferCount :: size_t

definition nimbleServerLocalPartyReInit ::
  "'x Env \<Rightarrow> 'x NimbleServerLocalParty \<Rightarrow> nat option \<Rightarrow> 'x NimbleServerLocalParty" where
  "nimbleServerLocalPartyReInit E self transportConnection =
     self\<lparr>lpState := NimbleServerLocalPartyStateNormal,
          lpQuality := nimbleServerConnectionQualityReInit (lpQuality self),
          lpDelayedQuality := nimbleServerConnectionQualityDelayedReset (lpDelayedQuality self),
          lpIncomingStepCountInBufferStats := statsIntInit E (lpIncomingStepCountInBufferStats self) 60,
          lpTransportConnection := transportConnection,
          lpWaitingForReconnectTimer := 0,
          lpWarningCount := 0,
          lpWarningAboutZeroAddedSteps := 0\<rparr>"

definition nimbleServerLocalPartyInit ::
  "'x Env \<Rightarrow> 'x NimbleServerLocalParty \<Rightarrow> u8 \<Rightarrow> 'x NimbleServerLocalParty" where
  "nimbleServerLocalPartyInit E self ident =
     (let self1 = self\<lparr>lpId := ident,
            lpReferences := (lpReferences self)\<lparr>participantReferenceCount := 0\<rparr>,
            lpWaitingForReconnectMaxTimer := 62 * 20, lpIsUsed := False, lpWarningCount := 0,
            lpQuality := nimbleServerConnectionQualityInit (lpQuality self),
            lpDelayedQuality := nimbleServerConnectionQualityDelayedInit (lpDelayedQuality self)\<rparr>
      in nimbleServerLocalPartyReInit E self1 None)"

definition nimbleServerLocalPartyReset :: "'x NimbleServerLocalParty \<Rightarrow> 'x NimbleServerLocalParty" where
  "nimbleServerLocalPartyReset self =
     self\<lparr>lpIsUsed := False,
          lpReferences := (lpReferences self)\<lparr>participantReferenceCount := 0\<rparr>,
          lpWaitingForReconnectTimer := 0, lpWarningCount := 0, lpWarningAboutZeroAddedSteps := 0,
          lpQuality := nimbleServerConnectionQualityReset (lpQuality self),
          lpDelayedQuality := nimbleServerConnectionQualityDelayedReset (lpDelayedQuality self)\<rparr>"

definition nimbleServerLocalPartyRejoin ::
  "'x Env \<Rightarrow> 'x NimbleServerLocalParty \<Rightarrow> nat option \<Rightarrow> 'x NimbleServerLocalParty" where
  "nimbleServerLocalPartyRejoin E self transportConnection =
     nimbleServerLocalPartyReInit E self transportConnection"

definition nimbleServerLocalPartyDestroy :: "'x NimbleServerLocalParty \<Rightarrow> 'x NimbleServerLocalParty" where
  "nimbleServerLocalPartyDestroy self = self\<lparr>lpState := NimbleServerLocalPartyStateDissolved\<rparr>"

section \<open>The tick\<close>

text \<open>\<open>forEachReferenced\<close> is the loop over the references of a party that changes each participant.\<close>

definition forEachReferenced ::
  "('x NimbleServerParticipant \<Rightarrow> 'x NimbleServerParticipant) \<Rightarrow> NimbleServerParticipantReferences \<Rightarrow>
   'x NimbleServerParticipant list \<Rightarrow> 'x NimbleServerParticipant list option" where
  "forEachReferenced f refs ps = runAll (\<lambda>ps i. do {
       (k, p) \<leftarrow> derefParticipant ps refs i;
       writeAt ps k (f p)
     }) ps [0..<unat (participantReferenceCount refs)]"

definition setToWaitingForReJoin ::
  "'x NimbleServerParticipant list \<Rightarrow> 'x NimbleServerLocalParty \<Rightarrow>
   ('x NimbleServerLocalParty \<times> 'x NimbleServerParticipant list) option" where
  "setToWaitingForReJoin ps self = do {
     let self1 = self\<lparr>lpState := NimbleServerLocalPartyStateWaitingForReJoin, lpWaitingForReconnectTimer := 0\<rparr>;
     ps1 \<leftarrow> forEachReferenced (\<lambda>p. p\<lparr>pState := NimbleServerParticipantStateWaitingForRejoin\<rparr>)
              (lpReferences self1) ps;
     Some (self1, ps1)
   }"

definition tickWaitingForReconnect ::
  "'x NimbleServerLocalParty \<Rightarrow> bool \<times> 'x NimbleServerLocalParty" where
  "tickWaitingForReconnect self =
     (let self1 = self\<lparr>lpWaitingForReconnectTimer := lpWaitingForReconnectTimer self + 1\<rparr>
      in if lpWaitingForReconnectTimer self1 < lpWaitingForReconnectMaxTimer self1 then (True, self1)
         else (False, self1))"

definition tickNormal ::
  "'x NimbleServerParticipant list \<Rightarrow> 'x NimbleServerLocalParty \<Rightarrow>
   ('x NimbleServerLocalParty \<times> 'x NimbleServerParticipant list) option" where
  "tickNormal ps self =
     (let (shouldKeep, dq) = nimbleServerConnectionQualityDelayedTick (lpDelayedQuality self) (lpQuality self);
          self1 = self\<lparr>lpDelayedQuality := dq\<rparr>
      in if \<not> shouldKeep \<and> lpState self1 \<noteq> NimbleServerLocalPartyStateWaitingForReJoin
         then setToWaitingForReJoin ps self1 else Some (self1, ps))"

definition nimbleServerLocalPartyTick ::
  "'x NimbleServerParticipant list \<Rightarrow> 'x NimbleServerLocalParty \<Rightarrow>
   (bool \<times> 'x NimbleServerLocalParty \<times> 'x NimbleServerParticipant list) option" where
  "nimbleServerLocalPartyTick ps self = (case lpState self of
       NimbleServerLocalPartyStateNormal \<Rightarrow> do { (self1, ps1) \<leftarrow> tickNormal ps self; Some (True, self1, ps1) }
     | NimbleServerLocalPartyStateWaitingForReJoin \<Rightarrow>
         (let (r, self1) = tickWaitingForReconnect self in Some (r, self1, ps))
     | NimbleServerLocalPartyStateDissolved \<Rightarrow> Some (True, self, ps))"

text \<open>The loop of \<open>nimbleServerLocalPartyHasParticipantId\<close> from position \<open>i\<close>.\<close>

fun partyHasParticipantIdFrom ::
  "'x NimbleServerParticipant list \<Rightarrow> NimbleServerParticipantReferences \<Rightarrow> u8 \<Rightarrow> nat \<Rightarrow> nat \<Rightarrow> bool option" where
  "partyHasParticipantIdFrom ps refs participantId i 0 = Some False"
| "partyHasParticipantIdFrom ps refs participantId i (Suc n) = do {
     (k, p) \<leftarrow> derefParticipant ps refs i;
     if pId p = participantId then Some True else partyHasParticipantIdFrom ps refs participantId (Suc i) n
   }"

definition nimbleServerLocalPartyHasParticipantId ::
  "'x NimbleServerParticipant list \<Rightarrow> 'x NimbleServerLocalParty \<Rightarrow> u8 \<Rightarrow> bool option" where
  "nimbleServerLocalPartyHasParticipantId ps self participantId =
     partyHasParticipantIdFrom ps (lpReferences self) participantId 0
       (unat (participantReferenceCount (lpReferences self)))"

section \<open>Reading predicted steps\<close>

text \<open>
  The inner loop over the steps of one participant: \<open>n\<close> steps to go, \<open>stepId\<close> the next one. A
  negative status ends the loop, otherwise the second component is \<open>totalAddedStepsCount\<close>.
\<close>

fun partyReadSteps ::
  "'x Env \<Rightarrow> StepId \<Rightarrow> nat \<Rightarrow> size_t \<Rightarrow> 'x NimbleServerParticipant \<Rightarrow> 'x FldInStream \<Rightarrow>
   int \<times> size_t \<times> 'x NimbleServerParticipant \<times> 'x FldInStream" where
  "partyReadSteps E stepId 0 totalAdded participant inStream = (0, totalAdded, participant, inStream)"
| "partyReadSteps E stepId (Suc n) totalAdded participant inStream =
     (let (addedStepsCount, participant1, inStream1) =
            nimbleServerParticipantDeserializeSingleStep E participant stepId inStream
      in if addedStepsCount < 0 then (addedStepsCount, totalAdded, participant1, inStream1)
         else partyReadSteps E (stepId + 1) n (totalAdded + word_of_int addedStepsCount) participant1 inStream1)"

text \<open>What is recorded in the party once the steps of a participant are read.\<close>

definition partyNoteAddedSteps ::
  "size_t \<Rightarrow> 'x NimbleServerParticipant \<Rightarrow> 'x NimbleServerLocalParty \<Rightarrow> 'x NimbleServerLocalParty" where
  "partyNoteAddedSteps totalAddedStepsCount participant self =
     (let self1 = (if totalAddedStepsCount = 0
                   then self\<lparr>lpWarningAboutZeroAddedSteps := lpWarningAboutZeroAddedSteps self + 1\<rparr> else self)
      in if totalAddedStepsCount > 0 then
           (let self2 = self1\<lparr>lpQuality := nimbleServerConnectionQualityAddedStepsToBuffer (lpQuality self1)
                                totalAddedStepsCount\<rparr>;
                receivedUpToStepId = expectedWriteId (pSteps participant) - 1
            in if receivedUpToStepId > lpHighestReceivedStepId self2
               then self2\<lparr>lpHighestReceivedStepId := receivedUpToStepId,
                          lpStepsInBufferCount := stepsCount (pSteps participant)\<rparr>
               else self2)
         else self1)"

text \<open>
  The outer loop, with \<open>n\<close> participants to go. A failed read of an octet is not checked by the
  code: the octet is then whatever the library leaves in the output variable.
\<close>

fun partyReadParticipants ::
  "'x Env \<Rightarrow> nat \<Rightarrow> 'x NimbleServerLocalParty \<Rightarrow> 'x NimbleServerParticipant list \<Rightarrow> 'x FldInStream \<Rightarrow>
   (int \<times> 'x NimbleServerLocalParty \<times> 'x NimbleServerParticipant list \<times> 'x FldInStream) option" where
  "partyReadParticipants E 0 self ps inStream = Some (0, self, ps, inStream)"
| "partyReadParticipants E (Suc n) self ps inStream =
     (let (_, participant_index, inStream1) = fldInStreamReadUInt8 E inStream
      in if ucast participant_index \<ge> participantReferenceCount (lpReferences self)
         then Some (-4, self, ps, inStream1)
         else do {
           (k, participant) \<leftarrow> derefParticipant ps (lpReferences self) (unat participant_index);
           let (errorCode, firstStepId, stepsThatFollow, inStream2) = nbsStepsInSerializeHeader E inStream1;
           if errorCode < 0 then Some (errorCode, self, ps, inStream2)
           else do {
             let (r, totalAdded, participant1, inStream3) =
               partyReadSteps E firstStepId (unat stepsThatFollow) 0 participant inStream2;
             let ps1 = ps[k := participant1];
             if r < 0 then Some (r, self, ps1, inStream3)
             else partyReadParticipants E n (partyNoteAddedSteps totalAdded participant1 self) ps1 inStream3
           }
         })"

definition nimbleServerLocalPartyDeserializePredictedSteps ::
  "'x Env \<Rightarrow> 'x NimbleServerLocalParty \<Rightarrow> 'x NimbleServerParticipant list \<Rightarrow> 'x FldInStream \<Rightarrow>
   (int \<times> 'x NimbleServerLocalParty \<times> 'x NimbleServerParticipant list \<times> 'x FldInStream) option" where
  "nimbleServerLocalPartyDeserializePredictedSteps E self ps inStream =
     (let (_, participant_count, inStream1) = fldInStreamReadUInt8 E inStream
      in partyReadParticipants E (unat participant_count) self ps inStream1)"

section \<open>Specification\<close>

text \<open>The references of a party are valid when each of the first \<open>count\<close> points into the array.\<close>

definition refsValid :: "nat \<Rightarrow> NimbleServerParticipantReferences \<Rightarrow> bool" where
  "refsValid n refs \<longleftrightarrow>
     unat (participantReferenceCount refs) \<le> length (participantReferences refs) \<and>
     (\<forall>i < unat (participantReferenceCount refs). \<exists>k < n. participantReferences refs ! i = Some k)"

definition refIndices :: "NimbleServerParticipantReferences \<Rightarrow> nat set" where
  "refIndices refs = {k. Some k \<in> set (take (unat (participantReferenceCount refs)) (participantReferences refs))}"

text \<open>\<open>partyTicks\<close> is a number of ticks in a row; the answers are collected in order.\<close>

primrec partyTicks ::
  "nat \<Rightarrow> 'x NimbleServerParticipant list \<Rightarrow> 'x NimbleServerLocalParty \<Rightarrow>
   (bool list \<times> 'x NimbleServerLocalParty \<times> 'x NimbleServerParticipant list) option" where
  "partyTicks 0 ps self = Some ([], self, ps)"
| "partyTicks (Suc n) ps self = do {
     (bs, self1, ps1) \<leftarrow> partyTicks n ps self;
     (b, self2, ps2) \<leftarrow> nimbleServerLocalPartyTick ps1 self1;
     Some (bs @ [b], self2, ps2)
   }"

text \<open>The two arrays agree outside \<open>K\<close>, and inside \<open>K\<close> differ at most in the step buffers.\<close>

definition onlyStepsChanged ::
  "nat set \<Rightarrow> 'x NimbleServerParticipant list \<Rightarrow> 'x NimbleServerParticipant list \<Rightarrow> bool" where
  "onlyStepsChanged K ps ps' \<longleftrightarrow> length ps' = length ps \<and>
     (\<forall>k < length ps. (k \<notin> K \<longrightarrow> ps' ! k = ps ! k) \<and>
        (\<exists>steps. ps' ! k = (ps ! k)\<lparr>pSteps := steps\<rparr>))"

text \<open>What reading predicted steps may change in the party itself.\<close>

definition partyStepsNoted :: "'x NimbleServerLocalParty \<Rightarrow> 'x NimbleServerLocalParty \<Rightarrow> bool" where
  "partyStepsNoted self self' \<longleftrightarrow> (\<exists>added warnings highest inBuffer.
     self' = self\<lparr>lpQuality := (lpQuality self)\<lparr>addedStepsToBufferCounter := added\<rparr>,
                  lpWarningAboutZeroAddedSteps := warnings, lpHighestReceivedStepId := highest,
                  lpStepsInBufferCount := inBuffer\<rparr> \<and>
     lpHighestReceivedStepId self \<le> highest)"

text \<open>A concrete party of one participant.\<close>

definition demoParty :: "demo NimbleServerLocalParty" where
  "demoParty =
     \<lparr>lpId = 0, lpIsUsed = True, lpState = NimbleServerLocalPartyStateNormal,
      lpReferences = \<lparr>participantReferenceCount = 1, participantReferences = [Some 0, None]\<rparr>,
      lpIncomingStepCountInBufferStats = \<lparr>statsAvg = 0, statsAvgIsSet = False, statsData = DNone\<rparr>,
      lpTransportConnection = Some 0, lpWaitingForReconnectTimer = 0,
      lpWaitingForReconnectMaxTimer = 1240,
      lpQuality = \<lparr>forcedStepInRowCounter = 200, providedStepsInARow = 0, addedStepsToBufferCounter = 0,
                   hasAddedFirstAcceptedSteps = False\<rparr>,
      lpDelayedQuality = \<lparr>impedingDisconnectCounter = 0\<rparr>,
      lpWarningCount = 0, lpWarningAboutZeroAddedSteps = 0, lpHighestReceivedStepId = 0,
      lpStepsInBufferCount = 0\<rparr>"

section \<open>Lemmas\<close>

lemma refsValid_deref:
  "refsValid (length ps) refs \<Longrightarrow> i < unat (participantReferenceCount refs) \<Longrightarrow>
   \<exists>k. derefParticipant ps refs i = Some (k, ps ! k) \<and> k < length ps \<and> k \<in> refIndices refs \<and>
     participantReferences refs ! i = Some k"
  by (force simp: refsValid_def derefParticipant_def refIndices_def in_set_conv_nth)

lemma refIndices_alt:
  "refsValid n refs \<Longrightarrow> refIndices refs =
     {k. \<exists>i < unat (participantReferenceCount refs). participantReferences refs ! i = Some k}"
  by (auto simp: refsValid_def refIndices_def in_set_conv_nth)

lemma forEachReferenced_prefix:
  assumes valid: "refsValid (length ps) refs" and f: "\<And>p. f (f p) = f p"
    and n: "n \<le> unat (participantReferenceCount refs)"
  shows "\<exists>ps'. runAll (\<lambda>ps i. do { (k, p) \<leftarrow> derefParticipant ps refs i; writeAt ps k (f p) }) ps [0..<n] = Some ps' \<and>
    length ps' = length ps \<and>
    (\<forall>k < length ps. ps' ! k = (if \<exists>i < n. participantReferences refs ! i = Some k then f (ps ! k) else ps ! k))"
  using n
proof (induction n)
  case 0
  then show ?case by simp
next
  case (Suc n)
  then obtain ps1 where ps1:
    "runAll (\<lambda>ps i. do { (k, p) \<leftarrow> derefParticipant ps refs i; writeAt ps k (f p) }) ps [0..<n] = Some ps1"
    "length ps1 = length ps"
    "\<forall>k < length ps. ps1 ! k = (if \<exists>i < n. participantReferences refs ! i = Some k then f (ps ! k) else ps ! k)"
    by auto
  from valid ps1(2) have "refsValid (length ps1) refs" by simp
  with Suc.prems obtain k where k: "derefParticipant ps1 refs n = Some (k, ps1 ! k)" "k < length ps1"
    "participantReferences refs ! n = Some k"
    using refsValid_deref [of ps1 refs n] by auto
  from ps1(1) k have "runAll (\<lambda>ps i. do { (k, p) \<leftarrow> derefParticipant ps refs i; writeAt ps k (f p) }) ps [0..<Suc n] =
      Some (ps1[k := f (ps1 ! k)])"
    by (simp add: runAll_append)
  moreover have "\<forall>j < length ps. ps1[k := f (ps1 ! k)] ! j =
      (if \<exists>i < Suc n. participantReferences refs ! i = Some j then f (ps ! j) else ps ! j)"
    using ps1(2,3) k f by (auto simp: nth_list_update less_Suc_eq)
  ultimately show ?case using ps1(2) by simp
qed

lemma forEachReferenced_spec:
  assumes "refsValid (length ps) refs" "\<And>p. f (f p) = f p"
  shows "\<exists>ps'. forEachReferenced f refs ps = Some ps' \<and> length ps' = length ps \<and>
    (\<forall>k < length ps. ps' ! k = (if k \<in> refIndices refs then f (ps ! k) else ps ! k))"
  using forEachReferenced_prefix [OF assms order_refl] refIndices_alt [OF assms(1)]
  by (simp add: forEachReferenced_def)

lemma partyTicks_add:
  "partyTicks (m + n) ps self = do {
     (bs, self1, ps1) \<leftarrow> partyTicks m ps self;
     (cs, self2, ps2) \<leftarrow> partyTicks n ps1 self1;
     Some (bs @ cs, self2, ps2)
   }"
  by (induction n) (auto split: Option.bind_splits)

lemma partyTicks_bad_quality:
  assumes "lpState self = NimbleServerLocalPartyStateNormal"
    "impedingDisconnectCounter (lpDelayedQuality self) = 0"
    "nimbleServerConnectionQualityCheckIfShouldDisconnect (lpQuality self)" "n \<le> 180"
  shows "partyTicks n ps self = Some (replicate n True,
    self\<lparr>lpDelayedQuality := (lpDelayedQuality self)\<lparr>impedingDisconnectCounter := of_nat n\<rparr>\<rparr>, ps)"
  using assms(4)
proof (induction n)
  case 0
  with assms show ?case by simp
next
  case (Suc n)
  then have "unat (of_nat n + 1 :: size_t) = n + 1" by (subst unat_inc) simp_all
  with Suc.prems have "\<not> (180 :: size_t) < of_nat n + 1" by (simp add: word_less_nat_alt)
  with Suc assms(1,3) show ?case
    by (simp add: nimbleServerLocalPartyTick_def tickNormal_def nimbleServerConnectionQualityDelayedTick_def
        Let_def replicate_append_same add.commute)
qed

lemma partyTicks_waiting:
  assumes "lpState self = NimbleServerLocalPartyStateWaitingForReJoin" "lpWaitingForReconnectTimer self = 0"
    "n < 2 ^ 64"
  shows "partyTicks n ps self =
    Some (map (\<lambda>i. Suc i < unat (lpWaitingForReconnectMaxTimer self)) [0..<n],
      self\<lparr>lpWaitingForReconnectTimer := of_nat n\<rparr>, ps)"
  using assms(3)
proof (induction n)
  case 0
  with assms show ?case by simp
next
  case (Suc n)
  then have "unat (of_nat n + 1 :: size_t) = n + 1" by (subst unat_inc) simp_all
  then have "of_nat n + 1 < lpWaitingForReconnectMaxTimer self \<longleftrightarrow>
      Suc n < unat (lpWaitingForReconnectMaxTimer self)"
    by (simp add: word_less_nat_alt)
  with Suc assms(1) show ?case
    by (simp add: nimbleServerLocalPartyTick_def tickWaitingForReconnect_def Let_def add.commute)
qed

lemma partyReadSteps_frame:
  "partyReadSteps E stepId n t p s = (r, t', p', s') \<Longrightarrow> (\<exists>steps. p' = p\<lparr>pSteps := steps\<rparr>) \<and> r \<le> 0"
proof (induction E stepId n t p s arbitrary: r t' p' s' rule: partyReadSteps.induct)
  case (1 E stepId t p s)
  then show ?case by (auto intro: exI [of _ "pSteps p"])
next
  case (2 E stepId n t p s)
  obtain e p1 s1 where one: "nimbleServerParticipantDeserializeSingleStep E p stepId s = (e, p1, s1)"
    by (cases "nimbleServerParticipantDeserializeSingleStep E p stepId s")
  then obtain steps where p1: "p1 = p\<lparr>pSteps := steps\<rparr>"
    by (auto simp: nimbleServerParticipantDeserializeSingleStep_def split: prod.splits)
  show ?case
  proof (cases "e < 0")
    case True
    with 2 one p1 show ?thesis by auto
  next
    case False
    from 2(1) [OF one [symmetric] refl refl False] 2(2) one False p1 show ?thesis by auto
  qed
qed

lemma onlyStepsChanged_refl: "onlyStepsChanged K (ps :: 'x NimbleServerParticipant list) ps"
proof -
  have "\<exists>steps. p = p\<lparr>pSteps := steps\<rparr>" for p :: "'x NimbleServerParticipant"
    by (rule exI [of _ "pSteps p"]) simp
  then show ?thesis by (simp add: onlyStepsChanged_def)
qed

lemma onlyStepsChanged_trans:
  assumes "onlyStepsChanged K ps ps1" "onlyStepsChanged K ps1 ps2"
  shows "onlyStepsChanged K ps ps2"
  unfolding onlyStepsChanged_def
proof (intro conjI allI impI)
  show "length ps2 = length ps" using assms by (simp add: onlyStepsChanged_def)
  fix k
  assume k: "k < length ps"
  then show "k \<notin> K \<Longrightarrow> ps2 ! k = ps ! k" using assms by (simp add: onlyStepsChanged_def)
  from k assms obtain st1 st2 where "ps1 ! k = (ps ! k)\<lparr>pSteps := st1\<rparr>" "ps2 ! k = (ps1 ! k)\<lparr>pSteps := st2\<rparr>"
    unfolding onlyStepsChanged_def by metis
  then show "\<exists>steps. ps2 ! k = (ps ! k)\<lparr>pSteps := steps\<rparr>" by auto
qed

lemma onlyStepsChanged_update:
  assumes "k \<in> K" "p' = (ps ! k)\<lparr>pSteps := steps\<rparr>"
  shows "onlyStepsChanged K ps (ps[k := p'])"
  unfolding onlyStepsChanged_def
proof (intro conjI allI impI)
  fix j
  assume "j < length ps"
  with assms show "\<exists>steps. ps[k := p'] ! j = (ps ! j)\<lparr>pSteps := steps\<rparr>"
    by (cases "j = k") (auto intro: exI [of _ "pSteps (ps ! j)"])
qed (use assms in \<open>simp, metis nth_list_update_neq\<close>)

lemma partyStepsNoted_refl: "partyStepsNoted self self"
  unfolding partyStepsNoted_def
  by (rule exI [of _ "addedStepsToBufferCounter (lpQuality self)"],
      rule exI [of _ "lpWarningAboutZeroAddedSteps self"],
      rule exI [of _ "lpHighestReceivedStepId self"], rule exI [of _ "lpStepsInBufferCount self"]) simp

lemma partyStepsNoted_trans: "partyStepsNoted a b \<Longrightarrow> partyStepsNoted b c \<Longrightarrow> partyStepsNoted a c"
  unfolding partyStepsNoted_def by (elim exE conjE) (simp, blast intro: order_trans)

lemma partyNoteAddedSteps_noted: "partyStepsNoted self (partyNoteAddedSteps t p self)"
proof -
  let ?self' = "partyNoteAddedSteps t p self"
  have "?self' = self\<lparr>lpQuality := (lpQuality self)\<lparr>addedStepsToBufferCounter :=
      addedStepsToBufferCounter (lpQuality ?self')\<rparr>,
      lpWarningAboutZeroAddedSteps := lpWarningAboutZeroAddedSteps ?self',
      lpHighestReceivedStepId := lpHighestReceivedStepId ?self',
      lpStepsInBufferCount := lpStepsInBufferCount ?self'\<rparr>"
    "lpHighestReceivedStepId self \<le> lpHighestReceivedStepId ?self'"
    by (auto simp: partyNoteAddedSteps_def Let_def nimbleServerConnectionQualityAddedStepsToBuffer_def)
  then show ?thesis unfolding partyStepsNoted_def by blast
qed

lemma partyStepsNoted_references: "partyStepsNoted a b \<Longrightarrow> lpReferences b = lpReferences a"
  by (auto simp: partyStepsNoted_def)

lemma partyReadParticipants_confined:
  assumes "refsValid (length ps) (lpReferences self)"
  shows "\<exists>r self' ps' s'. partyReadParticipants E n self ps s = Some (r, self', ps', s') \<and> r \<le> 0 \<and>
    onlyStepsChanged (refIndices (lpReferences self)) ps ps' \<and> partyStepsNoted self self'"
  using assms
proof (induction n arbitrary: self ps s)
  case 0
  then show ?case by (simp add: onlyStepsChanged_refl partyStepsNoted_refl)
next
  case (Suc n)
  obtain e ix s1 where ix: "fldInStreamReadUInt8 E s = (e, ix, s1)" by (cases "fldInStreamReadUInt8 E s")
  show ?case
  proof (cases "participantReferenceCount (lpReferences self) \<le> ucast ix")
    case True
    with ix show ?thesis by (simp add: onlyStepsChanged_refl partyStepsNoted_refl)
  next
    case False
    then have "unat ix < unat (participantReferenceCount (lpReferences self))"
      by (simp add: not_le)
    with Suc.prems obtain k where
      k: "derefParticipant ps (lpReferences self) (unat ix) = Some (k, ps ! k)" "k < length ps"
        "k \<in> refIndices (lpReferences self)"
      using refsValid_deref by blast
    obtain e2 first m s2 where hd: "nbsStepsInSerializeHeader E s1 = (e2, first, m, s2)"
      by (cases "nbsStepsInSerializeHeader E s1")
    show ?thesis
    proof (cases "e2 < 0")
      case True
      with False ix k hd show ?thesis by (simp add: onlyStepsChanged_refl partyStepsNoted_refl)
    next
      case ok: False
      obtain r t p' s3 where rd: "partyReadSteps E first (unat m) 0 (ps ! k) s2 = (r, t, p', s3)"
        by (cases "partyReadSteps E first (unat m) 0 (ps ! k) s2")
      from partyReadSteps_frame [OF rd] k(3)
      have upd: "onlyStepsChanged (refIndices (lpReferences self)) ps (ps[k := p'])"
        by (auto intro: onlyStepsChanged_update)
      show ?thesis
      proof (cases "r < 0")
        case True
        with False ix k hd ok rd upd show ?thesis by (simp add: partyStepsNoted_refl)
      next
        case r: False
        let ?self1 = "partyNoteAddedSteps t p' self"
        have noted: "partyStepsNoted self ?self1" by (rule partyNoteAddedSteps_noted)
        then have refs: "lpReferences ?self1 = lpReferences self" by (rule partyStepsNoted_references)
        from Suc.IH [of "ps[k := p']" ?self1 s3] Suc.prems refs obtain r' self' ps' s' where
          IH: "partyReadParticipants E n ?self1 (ps[k := p']) s3 = Some (r', self', ps', s')" "r' \<le> 0"
            "onlyStepsChanged (refIndices (lpReferences self)) (ps[k := p']) ps'" "partyStepsNoted ?self1 self'"
          by auto
        with False ix k hd ok rd r onlyStepsChanged_trans [OF upd IH(3)] partyStepsNoted_trans [OF noted IH(4)]
        show ?thesis by simp
      qed
    qed
  qed
qed

section \<open>Properties\<close>

text \<open>
  C22. A party whose connection quality stays bad is kept for exactly 1420 ticks: 180 ticks in
  normal state, then, from tick 181 on, waiting for a rejoin with every one of its participants (and
  no other participant) marked as waiting too; tick 1421 is the first that answers that the party is
  to be given up.
\<close>

theorem unresponsive_party_lifecycle:
  assumes "lpState self = NimbleServerLocalPartyStateNormal"
    and "impedingDisconnectCounter (lpDelayedQuality self) = 0"
    and "nimbleServerConnectionQualityCheckIfShouldDisconnect (lpQuality self)"
    and "lpWaitingForReconnectMaxTimer self = 1240"
    and "refsValid (length ps) (lpReferences self)"
  shows "(n \<le> 180 \<longrightarrow> (\<exists>self'. partyTicks n ps self = Some (replicate n True, self', ps) \<and>
            lpState self' = NimbleServerLocalPartyStateNormal)) \<and>
    (181 \<le> n \<and> n \<le> 1421 \<longrightarrow> (\<exists>self' ps'. partyTicks n ps self = Some (map (\<lambda>i. i < 1420) [0..<n], self', ps') \<and>
            lpState self' = NimbleServerLocalPartyStateWaitingForReJoin \<and> length ps' = length ps \<and>
            (\<forall>k < length ps. ps' ! k = (if k \<in> refIndices (lpReferences self)
               then (ps ! k)\<lparr>pState := NimbleServerParticipantStateWaitingForRejoin\<rparr> else ps ! k))))"
proof (intro conjI impI)
  assume "n \<le> 180"
  with partyTicks_bad_quality [OF assms(1-3), of n ps] assms(1) show
    "\<exists>self'. partyTicks n ps self = Some (replicate n True, self', ps) \<and>
      lpState self' = NimbleServerLocalPartyStateNormal" by simp
next
  assume n: "181 \<le> n \<and> n \<le> 1421"
  define m where "m = n - 181"
  with n have nm: "n = 181 + m" "m \<le> 1240" by auto
  let ?f = "\<lambda>p :: 'a NimbleServerParticipant. p\<lparr>pState := NimbleServerParticipantStateWaitingForRejoin\<rparr>"
  obtain ps' where ps': "forEachReferenced ?f (lpReferences self) ps = Some ps'" "length ps' = length ps"
    "\<forall>k < length ps. ps' ! k = (if k \<in> refIndices (lpReferences self) then ?f (ps ! k) else ps ! k)"
    using forEachReferenced_spec [OF assms(5), of ?f] by auto
  let ?self1 = "self\<lparr>lpDelayedQuality := (lpDelayedQuality self)\<lparr>impedingDisconnectCounter := 181\<rparr>,
    lpState := NimbleServerLocalPartyStateWaitingForReJoin, lpWaitingForReconnectTimer := 0\<rparr>"
  have "partyTicks (Suc 180) ps self = Some (replicate 180 True @ [True], ?self1, ps')"
    using assms(1-3) ps'(1) unfolding partyTicks.simps(2)
    by (simp add: partyTicks_bad_quality nimbleServerLocalPartyTick_def tickNormal_def
        nimbleServerConnectionQualityDelayedTick_def Let_def setToWaitingForReJoin_def)
  then have first: "partyTicks 181 ps self = Some (replicate 181 True, ?self1, ps')"
    by (simp del: partyTicks.simps add: replicate_append_same flip: replicate_Suc)
  have "partyTicks n ps self = Some (replicate 181 True @ map (\<lambda>i. Suc i < 1240) [0..<m],
      ?self1\<lparr>lpWaitingForReconnectTimer := of_nat m\<rparr>, ps')"
    using nm first partyTicks_waiting [of ?self1 m ps'] assms(4)
    by (simp add: partyTicks_add del: partyTicks.simps)
  moreover have "replicate 181 True @ map (\<lambda>i. Suc i < 1240) [0..<m] = map (\<lambda>i. i < 1420) [0..<n]"
    using nm(2) by (intro nth_equalityI) (auto simp: nm(1) nth_append)
  ultimately show "\<exists>self' ps'. partyTicks n ps self = Some (map (\<lambda>i. i < 1420) [0..<n], self', ps') \<and>
      lpState self' = NimbleServerLocalPartyStateWaitingForReJoin \<and> length ps' = length ps \<and>
      (\<forall>k < length ps. ps' ! k = (if k \<in> refIndices (lpReferences self) then ?f (ps ! k) else ps ! k))"
    using ps'(2,3) by simp
qed

theorem unresponsive_party_lifecycle_witness:
  "\<exists>self' ps'. partyTicks 1421 [zeroedParticipant (demoEnv ClogFatal)] demoParty =
      Some (map (\<lambda>i. i < 1420) [0..<1421], self', ps') \<and>
    lpState self' = NimbleServerLocalPartyStateWaitingForReJoin"
proof -
  have "refsValid (length [zeroedParticipant (demoEnv ClogFatal)]) (lpReferences demoParty)"
    by (simp add: refsValid_def demoParty_def)
  moreover have "nimbleServerConnectionQualityCheckIfShouldDisconnect (lpQuality demoParty)"
    by (simp add: demoParty_def shouldDisconnect_iff)
  ultimately show ?thesis
    using unresponsive_party_lifecycle [of demoParty "[zeroedParticipant (demoEnv ClogFatal)]" 1421]
    by (auto simp: demoParty_def simp del: partyTicks.simps)
qed

text \<open>
  C29. Reading predicted steps is confined: whatever the datagram holds and whatever the stream
  library answers, the call returns (an error code or 0, never a read outside the arrays), it changes
  nothing but the step buffers of the party's own participants, and in the party only the counters of
  received steps, the highest received step id never going down.
\<close>

theorem deserializePredictedSteps_confined:
  assumes "refsValid (length ps) (lpReferences self)"
  shows "\<exists>r self' ps' s'. nimbleServerLocalPartyDeserializePredictedSteps E self ps s = Some (r, self', ps', s') \<and>
    r \<le> 0 \<and> onlyStepsChanged (refIndices (lpReferences self)) ps ps' \<and> partyStepsNoted self self'"
  using partyReadParticipants_confined [OF assms]
  by (simp add: nimbleServerLocalPartyDeserializePredictedSteps_def split_beta)

theorem deserializePredictedSteps_confined_witness:
  "\<exists>r self' ps' s'. nimbleServerLocalPartyDeserializePredictedSteps (demoEnv ClogFatal) demoParty
      [zeroedParticipant (demoEnv ClogFatal)] (demoInInit [1, 0, 0, 2, 10, 11]) = Some (r, self', ps', s') \<and>
    r \<le> 0 \<and> onlyStepsChanged {0} [zeroedParticipant (demoEnv ClogFatal)] ps' \<and> partyStepsNoted demoParty self'"
proof -
  have "refsValid (length [zeroedParticipant (demoEnv ClogFatal)]) (lpReferences demoParty)"
    by (simp add: refsValid_def demoParty_def)
  moreover have "refIndices (lpReferences demoParty) = {0}"
    by (simp add: refIndices_def demoParty_def)
  ultimately show ?thesis
    using deserializePredictedSteps_confined [of "[zeroedParticipant (demoEnv ClogFatal)]" demoParty] by simp
qed

end
