(* ===== verification/TransportConnection.thy ===== *)
theory TransportConnection
  imports GameState LocalParty
begin

text \<open>
  The game (\<open>src/src/lib/game.c\<close>) and a transport connection, the server's side of one client:
  \<open>src/src/lib/transport_connection.c\<close> and \<open>transport_connection_stats.c\<close>. Allocators and logs are left out.
\<close>

section \<open>The game\<close>

record 'x NimbleServerGame =
  authoritativeSteps :: "'x NbsSteps"
  gameParticipants :: "'x NimbleServerParticipants"
  debugIsFrozen :: bool

definition nimbleServerGameInit ::
  "'x Env \<Rightarrow> 'x NimbleServerGame \<Rightarrow> size_t \<Rightarrow> size_t \<Rightarrow> 'x NimbleServerGame option" where
  "nimbleServerGameInit E self maxSingleParticipantStepOctetCount maxParticipantCount = do {
     let combinedStepOctetCount =
       nbsStepsOutSerializeCalculateCombinedSize E maxParticipantCount maxSingleParticipantStepOctetCount;
     let steps = nbsStepsReInit E (nbsStepsInit E (authoritativeSteps self) combinedStepOctetCount) 0;
     ps \<leftarrow> nimbleServerParticipantsInit E (gameParticipants self) maxParticipantCount
             maxSingleParticipantStepOctetCount;
     Some (self\<lparr>debugIsFrozen := False, authoritativeSteps := steps, gameParticipants := ps\<rparr>)
   }"

section \<open>The transport connection\<close>

datatype NimbleServerTransportConnectionPhase =
    NbTransportConnectionPhaseIdle
  | NbTransportConnectionPhaseWaitingForValidConnect
  | NbTransportConnectionPhaseConnected
  | NbTransportConnectionPhaseInitialStateDetermined
  | NbTransportConnectionPhaseDisconnected

record 'x NimbleServerTransportConnection =
  tcId :: u8
  tcTransportConnectionId :: u8
  tcTransportIndex :: u8
  tcConnectedFromConnectRequestId :: u8
  tcSecret :: u64
  tcAssignedParty :: "nat option"
  tcOrderedDatagramInLogic :: "'x OrderedDatagramInLogic"
  tcOrderedDatagramOutLogic :: 'x
  tcBlobStreamOut :: 'x
  tcBlobStreamLogicOut :: "'x BlobStreamLogicOut"
  tcNextBlobStreamOutChannel :: int
  tcBlobStreamOutClientRequestId :: u8
  tcStepsBehindStats :: "'x StatsInt"
  tcDebugCounter :: size_t
  tcIsUsed :: bool
  tcUseDebugStreams :: bool
  tcNoRangesToSendCounter :: u8
  tcPhase :: NimbleServerTransportConnectionPhase
  tcGameState :: NimbleServerGameState

definition transportConnectionInit ::
  "'x Env \<Rightarrow> 'x NimbleServerTransportConnection \<Rightarrow> size_t \<Rightarrow> 'x NimbleServerTransportConnection" where
  "transportConnectionInit E self maxGameStateOctetSize =
     self\<lparr>tcOrderedDatagramOutLogic := orderedDatagramOutLogicInit E (tcOrderedDatagramOutLogic self),
          tcOrderedDatagramInLogic := orderedDatagramInLogicInit E (tcOrderedDatagramInLogic self),
          tcGameState := nimbleServerGameStateInit E (tcGameState self) maxGameStateOctetSize,
          tcNextBlobStreamOutChannel := 127,
          tcDebugCounter := 0,
          tcIsUsed := True,
          tcNoRangesToSendCounter := 0,
          tcPhase := NbTransportConnectionPhaseIdle,
          tcBlobStreamOutClientRequestId := 0,
          tcUseDebugStreams := True,
          tcStepsBehindStats := statsIntInit E (tcStepsBehindStats self) 60\<rparr>"

definition transportConnectionDisconnect ::
  "'x NimbleServerTransportConnection \<Rightarrow> 'x NimbleServerTransportConnection" where
  "transportConnectionDisconnect self =
     self\<lparr>tcIsUsed := False, tcPhase := NbTransportConnectionPhaseDisconnected\<rparr>"

definition transportConnectionSetGameStateTickId ::
  "'x NimbleServerTransportConnection \<Rightarrow> 'x NimbleServerTransportConnection" where
  "transportConnectionSetGameStateTickId self = self\<lparr>tcPhase := NbTransportConnectionPhaseInitialStateDetermined\<rparr>"

definition transportConnectionWriteHeader ::
  "'x Env \<Rightarrow> 'x NimbleServerTransportConnection \<Rightarrow> 'x FldOutStream \<Rightarrow> u16 \<Rightarrow>
   int \<times> 'x NimbleServerTransportConnection \<times> 'x FldOutStream" where
  "transportConnectionWriteHeader E self outStream clientTime =
     (let (logic, outStream1) = orderedDatagramOutLogicPrepare E (tcOrderedDatagramOutLogic self) outStream;
          (r, outStream2) = fldOutStreamWriteUInt16 E outStream1 clientTime
      in (r, self\<lparr>tcOrderedDatagramOutLogic := logic\<rparr>, outStream2))"

definition transportConnectionCommitHeader ::
  "'x Env \<Rightarrow> 'x NimbleServerTransportConnection \<Rightarrow> 'x NimbleServerTransportConnection" where
  "transportConnectionCommitHeader E self =
     self\<lparr>tcOrderedDatagramOutLogic := orderedDatagramOutLogicCommit E (tcOrderedDatagramOutLogic self)\<rparr>"

text \<open>
  The statistics of a connection. \<open>parties\<close> is the array that \<open>assignedParty\<close> points into; the text
  \<open>showStats\<close> writes is left out.
\<close>

definition nimbleServerTransportConnectionUpdateStats ::
  "'x Env \<Rightarrow> 'x NimbleServerTransportConnection \<Rightarrow> 'x NimbleServerLocalParty list \<Rightarrow> 'x NimbleServerGame \<Rightarrow>
   StepId \<Rightarrow> ('x NimbleServerTransportConnection \<times> 'x NimbleServerLocalParty list) option" where
  "nimbleServerTransportConnectionUpdateStats E self parties foundGame clientWaitingForStepId = do {
     parties1 \<leftarrow> (case tcAssignedParty self of
         None \<Rightarrow> Some parties
       | Some i \<Rightarrow> modifyAt parties i (\<lambda>party. party\<lparr>lpIncomingStepCountInBufferStats :=
           statsIntAdd E (lpIncomingStepCountInBufferStats party) (int_of_size (lpStepsInBufferCount party))\<rparr>));
     let stepsBehindForClient =
       (ucast (expectedWriteId (authoritativeSteps foundGame) - clientWaitingForStepId) :: size_t);
     Some (self\<lparr>tcStepsBehindStats := statsIntAdd E (tcStepsBehindStats self) (int_of_size stepsBehindForClient),
                tcDebugCounter := tcDebugCounter self + 1\<rparr>, parties1)
   }"

end
