(* ===== verification/LocalParties.thy ===== *)
theory LocalParties
  imports TransportConnection
begin

text \<open>
  The collection of parties, \<open>src/src/lib/local_parties.c\<close>. Looking a party up by its transport
  follows the party's pointer into the array of transport connections, which is an argument.
\<close>

section \<open>State and operations\<close>

record 'x NimbleServerLocalParties =
  parties :: "'x NimbleServerLocalParty list"
  partiesCount :: size_t
  capacityCount :: size_t
  maxLocalPartyParticipantCount :: size_t
  maxSingleParticipantStepOctetCount :: size_t

definition NimbleServerErrOutOfParticipantMemory :: int where
  "NimbleServerErrOutOfParticipantMemory = -43"

text \<open>A party in zeroed memory.\<close>

definition zeroedParty :: "'x Env \<Rightarrow> 'x NimbleServerLocalParty" where
  "zeroedParty E =
     \<lparr>lpId = 0, lpIsUsed = False, lpState = NimbleServerLocalPartyStateNormal,
      lpReferences = \<lparr>participantReferenceCount = 0,
        participantReferences = replicate (NIMBLE_SERIALIZE_MAX_LOCAL_PLAYERS E) None\<rparr>,
      lpIncomingStepCountInBufferStats = \<lparr>statsAvg = 0, statsAvgIsSet = False, statsData = zeroData E\<rparr>,
      lpTransportConnection = None, lpWaitingForReconnectTimer = 0, lpWaitingForReconnectMaxTimer = 0,
      lpQuality = \<lparr>forcedStepInRowCounter = 0, providedStepsInARow = 0, addedStepsToBufferCounter = 0,
                   hasAddedFirstAcceptedSteps = False\<rparr>,
      lpDelayedQuality = \<lparr>impedingDisconnectCounter = 0\<rparr>,
      lpWarningCount = 0, lpWarningAboutZeroAddedSteps = 0, lpHighestReceivedStepId = 0,
      lpStepsInBufferCount = 0\<rparr>"

definition nimbleServerLocalPartiesInit ::
  "'x Env \<Rightarrow> 'x NimbleServerLocalParties \<Rightarrow> size_t \<Rightarrow> size_t \<Rightarrow> size_t \<Rightarrow> 'x NimbleServerLocalParties" where
  "nimbleServerLocalPartiesInit E self maxCount maxLocalParticipants maxOctets =
     self\<lparr>partiesCount := 0, capacityCount := maxCount,
          maxLocalPartyParticipantCount := maxLocalParticipants,
          maxSingleParticipantStepOctetCount := maxOctets,
          parties := map (\<lambda>i. nimbleServerLocalPartyInit E (zeroedParty E) (of_nat i)) [0..<unat maxCount]\<rparr>"

definition nimbleServerLocalPartiesReset ::
  "'x NimbleServerLocalParties \<Rightarrow> 'x NimbleServerLocalParties option" where
  "nimbleServerLocalPartiesReset self = do {
     ps \<leftarrow> runAll (\<lambda>ps i. modifyAt ps i nimbleServerLocalPartyReset) (parties self)
            [0..<unat (capacityCount self)];
     Some (self\<lparr>parties := ps\<rparr>)
   }"

text \<open>The answer is a pointer; an id out of range gives one that cannot be followed.\<close>

definition nimbleServerLocalPartiesFindParty ::
  "clog \<Rightarrow> 'x NimbleServerLocalParties \<Rightarrow> u8 \<Rightarrow> nat option" where
  "nimbleServerLocalPartiesFindParty c self partyId = do {
     clogErrorIf c (ucast partyId \<ge> capacityCount self);
     Some (unat partyId)
   }"

text \<open>The loop of \<open>nimbleServerLocalPartiesFindPartyForTransport\<close> from position \<open>i\<close>, \<open>n\<close> to go.\<close>

fun findPartyForTransportFrom ::
  "'x NimbleServerTransportConnection list \<Rightarrow> 'x NimbleServerLocalParty list \<Rightarrow> u32 \<Rightarrow> nat \<Rightarrow> nat \<Rightarrow>
   nat option option" where
  "findPartyForTransportFrom tcs ps transportConnectionId i 0 = Some None"
| "findPartyForTransportFrom tcs ps transportConnectionId i (Suc n) = do {
     party \<leftarrow> readAt ps i;
     found \<leftarrow> (if lpIsUsed party then
                (case lpTransportConnection party of
                   None \<Rightarrow> Some False
                 | Some t \<Rightarrow> map_option (\<lambda>tc. ucast (tcTransportConnectionId tc) = transportConnectionId) (readAt tcs t))
              else Some False);
     if found then Some (Some i) else findPartyForTransportFrom tcs ps transportConnectionId (Suc i) n
   }"

definition nimbleServerLocalPartiesFindPartyForTransport ::
  "'x NimbleServerTransportConnection list \<Rightarrow> 'x NimbleServerLocalParties \<Rightarrow> u32 \<Rightarrow> nat option option" where
  "nimbleServerLocalPartiesFindPartyForTransport tcs self transportConnectionId =
     findPartyForTransportFrom tcs (parties self) transportConnectionId 0 (unat (partiesCount self))"

text \<open>The search for a free place sets the id of the place it finds.\<close>

fun findFreePartyFrom :: "'x NimbleServerLocalParty list \<Rightarrow> nat \<Rightarrow> nat \<Rightarrow> nat option option" where
  "findFreePartyFrom ps i 0 = Some None"
| "findFreePartyFrom ps i (Suc n) = do {
     party \<leftarrow> readAt ps i;
     if lpIsUsed party then findFreePartyFrom ps (Suc i) n else Some (Some i)
   }"

definition findFreePartyPlaceButDoNotReserveItYet ::
  "'x NimbleServerLocalParties \<Rightarrow> (nat option \<times> 'x NimbleServerLocalParties) option" where
  "findFreePartyPlaceButDoNotReserveItYet self = do {
     found \<leftarrow> findFreePartyFrom (parties self) 0 (unat (capacityCount self));
     case found of
       None \<Rightarrow> Some (None, self)
     | Some i \<Rightarrow> do {
         ps \<leftarrow> modifyAt (parties self) i (\<lambda>party. party\<lparr>lpId := of_nat i\<rparr>);
         Some (Some i, self\<lparr>parties := ps\<rparr>)
       }
   }"

definition addParty ::
  "'x Env \<Rightarrow> 'x NimbleServerLocalParties \<Rightarrow> nat \<Rightarrow> nat option \<Rightarrow> nat option list \<Rightarrow> size_t \<Rightarrow>
   'x NimbleServerLocalParties option" where
  "addParty E self party transportConnection createdParticipants localParticipantCount = do {
     p0 \<leftarrow> readAt (parties self) party;
     let p1 = nimbleServerLocalPartyReInit E p0 transportConnection;
     let p2 = p1\<lparr>lpIsUsed := True\<rparr>;
     refs \<leftarrow> runAll (\<lambda>refs i. do { created \<leftarrow> readAt createdParticipants i; writeAt refs i created })
              (participantReferences (lpReferences p2)) [0..<unat localParticipantCount];
     let p3 = p2\<lparr>lpReferences := \<lparr>participantReferenceCount = localParticipantCount,
                                  participantReferences = refs\<rparr>\<rparr>;
     Some (self\<lparr>partiesCount := partiesCount self + 1, parties := (parties self)[party := p3]\<rparr>)
   }"

text \<open>The loop that prepares the participants of a migrated party.\<close>

fun preparePartyFrom ::
  "'x Env \<Rightarrow> nat \<Rightarrow> StepId \<Rightarrow> u8 list \<Rightarrow> nat \<Rightarrow> nat \<Rightarrow> 'x NimbleServerParticipants \<Rightarrow> nat option list \<Rightarrow>
   (int \<times> nat option list \<times> 'x NimbleServerParticipants) option" where
  "preparePartyFrom E party stepId ids i 0 ps created = Some (0, created, ps)"
| "preparePartyFrom E party stepId ids i (Suc n) ps created = do {
     participantId \<leftarrow> readAt ids i;
     (errorCode, p, ps1) \<leftarrow> nimbleServerParticipantsPrepare E ps participantId (Some party) stepId;
     created1 \<leftarrow> writeAt created i p;
     if errorCode < 0 then Some (errorCode, created1, ps1)
     else preparePartyFrom E party stepId ids (Suc i) n ps1 created1
   }"

definition nimbleServerLocalPartiesPrepare ::
  "'x Env \<Rightarrow> 'x NimbleServerLocalParties \<Rightarrow> 'x NimbleServerParticipants \<Rightarrow> StepId \<Rightarrow>
   NimbleSerializeLocalPartyInfo \<Rightarrow>
   (int \<times> nat option \<times> 'x NimbleServerLocalParties \<times> 'x NimbleServerParticipants) option" where
  "nimbleServerLocalPartiesPrepare E self ps latestAuthoritativeStepId partyInfo = do {
     (found, self1) \<leftarrow> findFreePartyPlaceButDoNotReserveItYet self;
     case found of
       None \<Rightarrow> Some (NimbleServerErrOutOfParticipantMemory, None, self1, ps)
     | Some party \<Rightarrow> do {
         (errorCode, created, ps1) \<leftarrow> preparePartyFrom E party latestAuthoritativeStepId
           (piParticipantIds partyInfo) 0 (unat (piParticipantCount partyInfo)) ps (replicate 16 None);
         if errorCode < 0 then Some (errorCode, None, self1, ps1)
         else do {
           self2 \<leftarrow> addParty E self1 party None created 1;
           ps2 \<leftarrow> modifyAt (parties self2) party (\<lambda>p. p\<lparr>lpIsUsed := True,
                    lpState := NimbleServerLocalPartyStateWaitingForReJoin, lpWaitingForReconnectTimer := 0\<rparr>);
           Some (0, Some party, self2\<lparr>parties := ps2\<rparr>, ps1)
         }
       }
   }"

definition nimbleServerLocalPartiesCreate ::
  "'x Env \<Rightarrow> 'x NimbleServerLocalParties \<Rightarrow> 'x NimbleServerParticipants \<Rightarrow> nat option \<Rightarrow> size_t list \<Rightarrow>
   StepId \<Rightarrow> size_t \<Rightarrow>
   (int \<times> nat option \<times> 'x NimbleServerLocalParties \<times> 'x NimbleServerParticipants) option" where
  "nimbleServerLocalPartiesCreate E self ps transportConnection joinInfo latestAuthoritativeStepId
     localParticipantCount = do {
     (found, self1) \<leftarrow> findFreePartyPlaceButDoNotReserveItYet self;
     case found of
       None \<Rightarrow> Some (NimbleServerErrOutOfParticipantMemory, None, self1, ps)
     | Some party \<Rightarrow> do {
         (errorCode, created, ps1) \<leftarrow> nimbleServerParticipantsJoin E ps joinInfo localParticipantCount
           (Some party) latestAuthoritativeStepId (replicate 16 None);
         if errorCode < 0 then Some (errorCode, None, self1, ps1)
         else do {
           self2 \<leftarrow> addParty E self1 party transportConnection created localParticipantCount;
           Some (0, Some party, self2, ps1)
         }
       }
   }"

definition nimbleServerLocalPartiesRemove ::
  "clog \<Rightarrow> 'x NimbleServerLocalParties \<Rightarrow> nat \<Rightarrow> 'x NimbleServerLocalParties option" where
  "nimbleServerLocalPartiesRemove c self party = do {
     p \<leftarrow> readAt (parties self) party;
     clogAssert c (lpIsUsed p);
     clogAssert c (partiesCount self \<noteq> 0);
     Some (self\<lparr>partiesCount := partiesCount self - 1,
                parties := (parties self)[party := nimbleServerLocalPartyReset p]\<rparr>)
   }"

section \<open>Invariant\<close>

text \<open>
  \<open>partiesShape\<close>: the array has its capacity, every party has room for at least one reference and
  the counter counts the parties in use. \<open>partyOwns\<close>: the references of the party at \<open>i\<close> lead to
  participants in use that belong to it and are not leaving. \<open>partiesRefs\<close>: the references of every
  party, in use or not, point into the array of participants. \<open>sessionWf\<close> joins these with the
  invariant of the participants, each of which belongs to some place of the array of parties.
\<close>

definition usedParties :: "'x NimbleServerLocalParties \<Rightarrow> nat set" where
  "usedParties lps = {i. i < length (parties lps) \<and> lpIsUsed (parties lps ! i)}"

definition partiesShape :: "'x NimbleServerLocalParties \<Rightarrow> bool" where
  "partiesShape lps \<longleftrightarrow>
     length (parties lps) = unat (capacityCount lps) \<and> capacityCount lps \<le> 64 \<and>
     unat (partiesCount lps) = card (usedParties lps) \<and>
     (\<forall>p \<in> set (parties lps). participantReferences (lpReferences p) \<noteq> [])"

definition partyOwns ::
  "'x NimbleServerParticipant list \<Rightarrow> nat \<Rightarrow> 'x NimbleServerLocalParty \<Rightarrow> bool" where
  "partyOwns ps i p \<longleftrightarrow> refsValid (length ps) (lpReferences p) \<and>
     (\<forall>k \<in> refIndices (lpReferences p). pIsUsed (ps ! k) \<and> pInParty (ps ! k) = Some i \<and>
        pState (ps ! k) \<noteq> NimbleServerParticipantStateLeaving)"

definition partiesOwn :: "'x NimbleServerLocalParties \<Rightarrow> 'x NimbleServerParticipant list \<Rightarrow> bool" where
  "partiesOwn lps ps \<longleftrightarrow> (\<forall>i \<in> usedParties lps. partyOwns ps i (parties lps ! i))"

definition participantsHaveParty :: "nat \<Rightarrow> 'x NimbleServerParticipant list \<Rightarrow> bool" where
  "participantsHaveParty n ps \<longleftrightarrow> (\<forall>p \<in> set ps. pIsUsed p \<longrightarrow> (\<exists>j < n. pInParty p = Some j))"

definition partiesRefs :: "nat \<Rightarrow> 'x NimbleServerLocalParty list \<Rightarrow> bool" where
  "partiesRefs n lps \<longleftrightarrow> (\<forall>p \<in> set lps. refsValid n (lpReferences p))"

definition sessionWf :: "'x NimbleServerLocalParties \<Rightarrow> 'x NimbleServerParticipants \<Rightarrow> bool" where
  "sessionWf lps ps \<longleftrightarrow> partiesShape lps \<and> participantsWf ps \<and> partiesOwn lps (participants ps) \<and>
     participantsHaveParty (length (parties lps)) (participants ps) \<and>
     partiesRefs (length (participants ps)) (parties lps)"

text \<open>The two collections that witnesses start from: three participants, two parties, all free.\<close>

definition blankParties :: "demo NimbleServerLocalParties" where
  "blankParties = nimbleServerLocalPartiesInit (demoEnv ClogFatal)
     \<lparr>parties = [], partiesCount = 0, capacityCount = 0, maxLocalPartyParticipantCount = 0,
      maxSingleParticipantStepOctetCount = 0\<rparr> 2 8 32"

section \<open>Lemmas\<close>

lemma finite_usedParties [simp]: "finite (usedParties lps)"
  by (simp add: usedParties_def)

lemma usedParties_subset: "usedParties lps \<subseteq> {0..<length (parties lps)}"
  by (auto simp: usedParties_def)

lemma refIndices_in_range: "refsValid n refs \<Longrightarrow> k \<in> refIndices refs \<Longrightarrow> k < n"
  by (fastforce simp: refIndices_alt refsValid_def)

lemma findFreePartyFrom_spec:
  assumes "i + n \<le> length ps"
  shows "findFreePartyFrom ps i n = Some (if \<exists>j. i \<le> j \<and> j < i + n \<and> \<not> lpIsUsed (ps ! j)
    then Some (LEAST j. i \<le> j \<and> \<not> lpIsUsed (ps ! j)) else None)"
  using assms
proof (induction n arbitrary: i)
  case 0
  then show ?case by auto
next
  case (Suc n)
  show ?case
  proof (cases "lpIsUsed (ps ! i)")
    case True
    then have eq: "i \<le> j \<and> \<not> lpIsUsed (ps ! j) \<longleftrightarrow> Suc i \<le> j \<and> \<not> lpIsUsed (ps ! j)" for j
      by (metis Suc_leD Suc_leI le_neq_implies_less)
    then have "(\<lambda>j. i \<le> j \<and> \<not> lpIsUsed (ps ! j)) = (\<lambda>j. Suc i \<le> j \<and> \<not> lpIsUsed (ps ! j))"
      "(\<exists>j. i \<le> j \<and> j < i + Suc n \<and> \<not> lpIsUsed (ps ! j)) \<longleftrightarrow>
       (\<exists>j. Suc i \<le> j \<and> j < Suc i + n \<and> \<not> lpIsUsed (ps ! j))"
      using add_Suc_shift [of i n] by (simp, metis eq)
    with Suc True show ?thesis by (simp, blast)
  next
    case False
    then have "(LEAST j. i \<le> j \<and> \<not> lpIsUsed (ps ! j)) = i" by (intro Least_equality) auto
    with False Suc.prems show ?thesis by (auto intro: exI [of _ i])
  qed
qed

lemma findFreeParty_full:
  assumes "partiesShape lps" "usedParties lps = {0..<length (parties lps)}"
  shows "findFreePartyPlaceButDoNotReserveItYet lps = Some (None, lps)"
proof -
  have "\<forall>j < length (parties lps). lpIsUsed (parties lps ! j)"
    using assms(2) by (auto simp: usedParties_def set_eq_iff)
  with assms(1) show ?thesis
    by (auto simp: findFreePartyPlaceButDoNotReserveItYet_def findFreePartyFrom_spec partiesShape_def)
qed

lemma findFreeParty_room:
  assumes "partiesShape lps" "usedParties lps \<noteq> {0..<length (parties lps)}"
  defines "i \<equiv> LEAST j. j \<notin> usedParties lps"
  shows "i < length (parties lps)" "i \<notin> usedParties lps"
    "findFreePartyPlaceButDoNotReserveItYet lps =
      Some (Some i, lps\<lparr>parties := (parties lps)[i := (parties lps ! i)\<lparr>lpId := of_nat i\<rparr>]\<rparr>)"
proof -
  from assms(2) usedParties_subset obtain j where j: "j < length (parties lps)" "j \<notin> usedParties lps"
    by fastforce
  show i: "i < length (parties lps)" "i \<notin> usedParties lps"
    unfolding i_def using j by (auto intro: Least_le [THEN le_less_trans] dest: LeastI [of "\<lambda>j. j \<notin> usedParties lps"])
  have "\<exists>j < length (parties lps). \<not> lpIsUsed (parties lps ! j)" using j by (auto simp: usedParties_def)
  moreover have "(LEAST j. \<not> lpIsUsed (parties lps ! j)) = i"
  proof (rule Least_equality)
    show "\<not> lpIsUsed (parties lps ! i)" using i by (simp add: usedParties_def)
    show "i \<le> y" if "\<not> lpIsUsed (parties lps ! y)" for y
      unfolding i_def using that by (intro Least_le) (simp add: usedParties_def)
  qed
  ultimately show "findFreePartyPlaceButDoNotReserveItYet lps =
      Some (Some i, lps\<lparr>parties := (parties lps)[i := (parties lps ! i)\<lparr>lpId := of_nat i\<rparr>]\<rparr>)"
    using assms(1) i(1)
    by (auto simp: findFreePartyPlaceButDoNotReserveItYet_def findFreePartyFrom_spec partiesShape_def)
qed

lemma addParty_one:
  assumes "i < length (parties lps)" "participantReferences (lpReferences (parties lps ! i)) = r # rs"
    "created \<noteq> []"
  shows "addParty E lps i tc created 1 = Some (lps\<lparr>partiesCount := partiesCount lps + 1,
    parties := (parties lps)[i := (nimbleServerLocalPartyReInit E (parties lps ! i) tc)\<lparr>lpIsUsed := True,
      lpReferences := \<lparr>participantReferenceCount = 1, participantReferences = hd created # rs\<rparr>\<rparr>]\<rparr>)"
  using assms by (cases created) (simp_all add: addParty_def nimbleServerLocalPartyReInit_def Let_def)

lemma usedParties_set:
  "i < length (parties lps) \<Longrightarrow> usedParties (lps\<lparr>parties := (parties lps)[i := p]\<rparr>) =
     (if lpIsUsed p then insert i (usedParties lps) else usedParties lps - {i})"
  by (auto simp: usedParties_def nth_list_update)

lemma usedParties_frame [simp]: "usedParties (lps\<lparr>partiesCount := n\<rparr>) = usedParties lps"
  by (simp add: usedParties_def)

lemma partiesShape_update:
  assumes "partiesShape lps" "i < length (parties lps)" "lpIsUsed p = lpIsUsed (parties lps ! i)"
    "participantReferences (lpReferences p) \<noteq> []"
  shows "partiesShape (lps\<lparr>parties := (parties lps)[i := p]\<rparr>)"
    "usedParties (lps\<lparr>parties := (parties lps)[i := p]\<rparr>) = usedParties lps"
proof -
  show used: "usedParties (lps\<lparr>parties := (parties lps)[i := p]\<rparr>) = usedParties lps"
    using assms(2,3) by (auto simp: usedParties_set) (auto simp: usedParties_def)
  show "partiesShape (lps\<lparr>parties := (parties lps)[i := p]\<rparr>)"
    using assms used set_update_subset_insert [of "parties lps" i p] by (auto simp: partiesShape_def)
qed

lemma partiesShape_take:
  assumes "partiesShape lps" "i < length (parties lps)" "i \<notin> usedParties lps" "lpIsUsed p"
    "participantReferences (lpReferences p) \<noteq> []"
  shows "partiesShape (lps\<lparr>partiesCount := partiesCount lps + 1, parties := (parties lps)[i := p]\<rparr>)"
    "usedParties (lps\<lparr>partiesCount := partiesCount lps + 1, parties := (parties lps)[i := p]\<rparr>) =
       insert i (usedParties lps)"
proof -
  show used: "usedParties (lps\<lparr>partiesCount := partiesCount lps + 1, parties := (parties lps)[i := p]\<rparr>) =
       insert i (usedParties lps)"
    using assms(2,4) usedParties_set [of i "lps\<lparr>partiesCount := partiesCount lps + 1\<rparr>" p] by simp
  have "card (usedParties lps) + 1 \<le> length (parties lps)"
    using assms(2,3) card_mono [of "{0..<length (parties lps)}" "insert i (usedParties lps)"]
      usedParties_subset [of lps] by auto
  then have "unat (partiesCount lps + 1) = card (usedParties lps) + 1"
    using assms(1) by (subst unat_inc) (auto simp: partiesShape_def word_le_nat_alt)
  then show "partiesShape (lps\<lparr>partiesCount := partiesCount lps + 1, parties := (parties lps)[i := p]\<rparr>)"
    using assms used set_update_subset_insert [of "parties lps" i p] by (auto simp: partiesShape_def)
qed

lemma partiesShape_free:
  assumes "partiesShape lps" "i \<in> usedParties lps" "\<not> lpIsUsed p"
    "participantReferences (lpReferences p) \<noteq> []"
  shows "partiesShape (lps\<lparr>partiesCount := partiesCount lps - 1, parties := (parties lps)[i := p]\<rparr>)"
    "usedParties (lps\<lparr>partiesCount := partiesCount lps - 1, parties := (parties lps)[i := p]\<rparr>) =
       usedParties lps - {i}"
proof -
  have i: "i < length (parties lps)" using assms(2) by (simp add: usedParties_def)
  show used: "usedParties (lps\<lparr>partiesCount := partiesCount lps - 1, parties := (parties lps)[i := p]\<rparr>) =
       usedParties lps - {i}"
    using i assms(3) usedParties_set [of i "lps\<lparr>partiesCount := partiesCount lps - 1\<rparr>" p] by simp
  have "card (usedParties lps) > 0" using assms(2) by (auto simp: card_gt_0_iff)
  with assms(1) have "partiesCount lps \<noteq> 0" by (auto simp: partiesShape_def)
  then have "unat (partiesCount lps - 1) = card (usedParties lps - {i})"
    using assms(1,2) by (simp add: partiesShape_def unat_minus_one)
  then show "partiesShape (lps\<lparr>partiesCount := partiesCount lps - 1, parties := (parties lps)[i := p]\<rparr>)"
    using assms used set_update_subset_insert [of "parties lps" i p] by (auto simp: partiesShape_def)
qed

text \<open>A party keeps what it owns when a participant outside its references changes.\<close>

lemma partyOwns_frame:
  assumes "partyOwns ps i p" "length ps' = length ps" "\<forall>k \<in> refIndices (lpReferences p). ps' ! k = ps ! k"
  shows "partyOwns ps' i p"
  using assms by (simp add: partyOwns_def)

lemma partyOwns_update:
  assumes "partyOwns ps i p" "\<not> pIsUsed (ps ! k)"
  shows "partyOwns (ps[k := q]) i p"
  using assms(1)
proof (rule partyOwns_frame)
  show "\<forall>j \<in> refIndices (lpReferences p). ps[k := q] ! j = ps ! j"
    using assms by (metis nth_list_update_neq partyOwns_def)
qed simp

lemma partiesOwn_takeSlot:
  assumes "partiesOwn lps ps" "\<not> pIsUsed (ps ! k)" "k < length ps" "partyOwns (ps[k := q]) i p"
  shows "partiesOwn (lps\<lparr>partiesCount := n, parties := (parties lps)[i := p]\<rparr>) (ps[k := q])"
  unfolding partiesOwn_def
proof
  fix j
  assume "j \<in> usedParties (lps\<lparr>partiesCount := n, parties := (parties lps)[i := p]\<rparr>)"
  then show "partyOwns (ps[k := q]) j (parties (lps\<lparr>partiesCount := n, parties := (parties lps)[i := p]\<rparr>) ! j)"
    using assms by (cases "j = i") (auto simp: partiesOwn_def usedParties_def intro: partyOwns_update)
qed

lemma participantsHaveParty_update:
  "participantsHaveParty n ps \<Longrightarrow> pInParty q = Some j \<Longrightarrow> j < n \<Longrightarrow> participantsHaveParty n (ps[k := q])"
  using set_update_subset_insert [of ps k q] by (auto simp: participantsHaveParty_def)

lemma partiesRefs_update:
  "partiesRefs n lps \<Longrightarrow> refsValid n (lpReferences p) \<Longrightarrow> partiesRefs n (lps[i := p])"
  using set_update_subset_insert [of lps i p] by (auto simp: partiesRefs_def)

lemma partyOwns_single:
  "k < length ps \<Longrightarrow> pIsUsed (ps ! k) \<Longrightarrow> pInParty (ps ! k) = Some i \<Longrightarrow>
   pState (ps ! k) \<noteq> NimbleServerParticipantStateLeaving \<Longrightarrow>
   lpReferences p = \<lparr>participantReferenceCount = 1, participantReferences = Some k # rs\<rparr> \<Longrightarrow>
   partyOwns ps i p \<and> refIndices (lpReferences p) = {k}"
  by (auto simp: partyOwns_def refsValid_def refIndices_def)

lemma localPartiesCreate_room:
  assumes wf: "sessionWf lps ps" and free: "usedParties lps \<noteq> {0..<length (parties lps)}"
    and room: "card (usedIds ps) < unat (participantCapacity ps)"
  defines "i \<equiv> LEAST j. j \<notin> usedParties lps"
  shows "\<exists>k lps' ps'. nimbleServerLocalPartiesCreate E lps ps tc (player # players) stepId 1 =
      Some (0, Some i, lps', ps') \<and> sessionWf lps' ps' \<and>
    i < length (parties lps) \<and> i \<notin> usedParties lps \<and> usedParties lps' = insert i (usedParties lps) \<and>
    (\<forall>j. j \<noteq> i \<longrightarrow> parties lps' ! j = parties lps ! j) \<and>
    lpId (parties lps' ! i) = of_nat i \<and> lpTransportConnection (parties lps' ! i) = tc \<and>
    lpState (parties lps' ! i) = NimbleServerLocalPartyStateNormal \<and>
    refIndices (lpReferences (parties lps' ! i)) = {k} \<and>
    (\<exists>rs. lpReferences (parties lps' ! i) = \<lparr>participantReferenceCount = 1, participantReferences = Some k # rs\<rparr>) \<and>
    k < length (participants ps) \<and> k \<notin> usedIds ps \<and> usedIds ps' = insert k (usedIds ps) \<and>
    participants ps' = (participants ps)[k := joinedParticipant E (participants ps ! k) i stepId player (of_nat k)] \<and>
    capacityCount lps' = capacityCount lps \<and> length (parties lps') = length (parties lps)"
proof -
  have shape: "partiesShape lps" and pwf: "participantsWf ps" and own: "partiesOwn lps (participants ps)"
    and hp: "participantsHaveParty (length (parties lps)) (participants ps)"
    and rf: "partiesRefs (length (participants ps)) (parties lps)"
    using wf by (auto simp: sessionWf_def)
  have i: "i < length (parties lps)" "i \<notin> usedParties lps"
    and find: "findFreePartyPlaceButDoNotReserveItYet lps =
      Some (Some i, lps\<lparr>parties := (parties lps)[i := (parties lps ! i)\<lparr>lpId := of_nat i\<rparr>]\<rparr>)"
    using findFreeParty_room [OF shape free] unfolding i_def by blast+
  obtain k ps' where join: "nimbleServerParticipantsJoin E ps (player # players) 1 (Some i) stepId (replicate 16 None) =
      Some (0, (replicate 16 None)[0 := Some k], ps')"
    and ps': "participants ps' = (participants ps)[k := joinedParticipant E (participants ps ! k) i stepId player (of_nat k)]"
    and k: "k < length (participants ps)" "k \<notin> usedIds ps" "participantsWf ps'" "usedIds ps' = insert k (usedIds ps)"
    using participantsJoin_room [OF pwf room, of "replicate 16 None" E player players i stepId] by fastforce
  obtain r rs where refs: "participantReferences (lpReferences (parties lps ! i)) = r # rs"
    using shape i(1) by (cases "participantReferences (lpReferences (parties lps ! i))")
      (auto simp: partiesShape_def)
  let ?p = "(nimbleServerLocalPartyReInit E ((parties lps ! i)\<lparr>lpId := of_nat i\<rparr>) tc)\<lparr>lpIsUsed := True,
    lpReferences := \<lparr>participantReferenceCount = 1, participantReferences = Some k # rs\<rparr>\<rparr>"
  let ?lps' = "lps\<lparr>partiesCount := partiesCount lps + 1, parties := (parties lps)[i := ?p]\<rparr>"
  have run: "nimbleServerLocalPartiesCreate E lps ps tc (player # players) stepId 1 = Some (0, Some i, ?lps', ps')"
    using i(1) refs join by (simp add: nimbleServerLocalPartiesCreate_def find addParty_one hd_conv_nth)
  have unused: "\<not> pIsUsed (participants ps ! k)" using k(1,2) by (simp add: usedIds_def)
  have owns: "partyOwns (participants ps') i ?p" "refIndices (lpReferences ?p) = {k}"
    using partyOwns_single [of k "participants ps'" i ?p rs] k(1) ps' by (simp_all add: joinedParticipant_def)
  have own': "partiesOwn ?lps' (participants ps')"
    using partiesOwn_takeSlot [OF own unused k(1)] owns(1) ps' by simp
  have hp': "participantsHaveParty (length (parties ?lps')) (participants ps')"
    using participantsHaveParty_update [OF hp, where j = i] i(1) ps' by (simp add: joinedParticipant_def)
  have shape': "partiesShape ?lps'" "usedParties ?lps' = insert i (usedParties lps)"
    using partiesShape_take [OF shape i, of ?p] by simp_all
  have "partiesRefs (length (participants ps')) (parties ?lps')"
    using partiesRefs_update [OF rf] owns(1) ps' by (simp add: partyOwns_def)
  then have "sessionWf ?lps' ps'" using shape'(1) k(3) own' hp' by (simp add: sessionWf_def)
  with run i k ps' owns(2) shape'(2) show ?thesis
    by (intro exI [of _ k] exI [of _ ?lps'] exI [of _ ps']) (simp add: nimbleServerLocalPartyReInit_def)
qed

lemma sessionWf_renameFree:
  assumes "sessionWf lps ps" "i < length (parties lps)" "i \<notin> usedParties lps"
  shows "sessionWf (lps\<lparr>parties := (parties lps)[i := (parties lps ! i)\<lparr>lpId := n\<rparr>]\<rparr>) ps"
proof -
  let ?p = "(parties lps ! i)\<lparr>lpId := n\<rparr>"
  have shape: "partiesShape lps" using assms(1) by (simp add: sessionWf_def)
  then have "participantReferences (lpReferences ?p) \<noteq> []" using assms(2) by (auto simp: partiesShape_def)
  note upd = partiesShape_update [OF shape assms(2) _ this, simplified]
  with assms have "partiesOwn (lps\<lparr>parties := (parties lps)[i := ?p]\<rparr>) (participants ps)"
    by (auto simp: partiesOwn_def sessionWf_def nth_list_update)
  moreover have "partiesRefs (length (participants ps)) ((parties lps)[i := ?p])"
    using assms by (intro partiesRefs_update) (simp_all add: sessionWf_def partiesRefs_def)
  ultimately show ?thesis using assms upd by (simp add: sessionWf_def)
qed

lemma sessionWf_init:
  assumes "participantsWf ps" "usedIds ps = {}" "maxCount \<le> 64" "NIMBLE_SERIALIZE_MAX_LOCAL_PLAYERS E > 0"
  shows "sessionWf (nimbleServerLocalPartiesInit E self maxCount m n) ps \<and>
    usedParties (nimbleServerLocalPartiesInit E self maxCount m n) = {}"
proof -
  let ?lps = "nimbleServerLocalPartiesInit E self maxCount m n"
  have used: "usedParties ?lps = {}"
    by (simp add: usedParties_def nimbleServerLocalPartiesInit_def nimbleServerLocalPartyInit_def
        nimbleServerLocalPartyReInit_def Let_def)
  with assms(3,4) have "partiesShape ?lps"
    by (simp add: partiesShape_def nimbleServerLocalPartiesInit_def nimbleServerLocalPartyInit_def
        nimbleServerLocalPartyReInit_def Let_def zeroedParty_def)
  moreover have "participantsHaveParty (length (parties ?lps)) (participants ps)"
    using assms(2) by (fastforce simp: participantsHaveParty_def usedIds_def in_set_conv_nth)
  moreover have "partiesRefs (length (participants ps)) (parties ?lps)"
    by (simp add: partiesRefs_def refsValid_def nimbleServerLocalPartiesInit_def nimbleServerLocalPartyInit_def
        nimbleServerLocalPartyReInit_def Let_def)
  ultimately show ?thesis using assms used by (simp add: sessionWf_def partiesOwn_def)
qed

lemma localPartiesRemove_used:
  assumes wf: "sessionWf lps ps" and i: "i \<in> usedParties lps"
  shows "\<exists>lps'. nimbleServerLocalPartiesRemove c lps i = Some lps' \<and> partiesShape lps' \<and>
    usedParties lps' = usedParties lps - {i} \<and>
    parties lps' = (parties lps)[i := nimbleServerLocalPartyReset (parties lps ! i)] \<and>
    capacityCount lps' = capacityCount lps"
proof -
  have shape: "partiesShape lps" using wf by (simp add: sessionWf_def)
  have l: "i < length (parties lps)" "lpIsUsed (parties lps ! i)" using i by (auto simp: usedParties_def)
  have "card (usedParties lps) > 0" using i by (auto simp: card_gt_0_iff)
  with shape have "partiesCount lps \<noteq> 0" by (auto simp: partiesShape_def)
  moreover have "participantReferences (lpReferences (nimbleServerLocalPartyReset (parties lps ! i))) \<noteq> []"
    using shape l(1) by (auto simp: partiesShape_def nimbleServerLocalPartyReset_def)
  moreover have "\<not> lpIsUsed (nimbleServerLocalPartyReset (parties lps ! i))"
    by (simp add: nimbleServerLocalPartyReset_def)
  ultimately show ?thesis
    using l partiesShape_free [OF shape i] by (simp add: nimbleServerLocalPartiesRemove_def)
qed

lemma localPartiesCreate_sessionFull:
  assumes wf: "sessionWf lps ps" and free: "usedParties lps \<noteq> {0..<length (parties lps)}"
    and full: "card (usedIds ps) = unat (participantCapacity ps)"
  defines "i \<equiv> LEAST j. j \<notin> usedParties lps"
  shows "nimbleServerLocalPartiesCreate E lps ps tc players stepId 1 = Some (NimbleServerErrSessionFull, None,
      lps\<lparr>parties := (parties lps)[i := (parties lps ! i)\<lparr>lpId := of_nat i\<rparr>]\<rparr>, ps)"
    "sessionWf (lps\<lparr>parties := (parties lps)[i := (parties lps ! i)\<lparr>lpId := of_nat i\<rparr>]\<rparr>) ps"
proof -
  have shape: "partiesShape lps" and pshape: "participantsShape ps"
    using wf by (auto simp: sessionWf_def participantsWf_def)
  note room = findFreeParty_room [OF shape free, folded i_def]
  show "nimbleServerLocalPartiesCreate E lps ps tc players stepId 1 = Some (NimbleServerErrSessionFull, None,
      lps\<lparr>parties := (parties lps)[i := (parties lps ! i)\<lparr>lpId := of_nat i\<rparr>]\<rparr>, ps)"
    using participantsJoin_full [OF pshape full]
    by (simp add: nimbleServerLocalPartiesCreate_def room(3) NimbleServerErrSessionFull_def)
  show "sessionWf (lps\<lparr>parties := (parties lps)[i := (parties lps ! i)\<lparr>lpId := of_nat i\<rparr>]\<rparr>) ps"
    by (rule sessionWf_renameFree [OF wf room(1,2)])
qed

lemma blankParties_wf:
  assumes "participantsWf ps" "usedIds ps = {}"
  shows "sessionWf blankParties ps" "usedParties blankParties = {}" "length (parties blankParties) = 2"
  using sessionWf_init [OF assms, of 2 "demoEnv ClogFatal"]
  by (simp_all add: blankParties_def demoEnv_def) (simp add: nimbleServerLocalPartiesInit_def)

section \<open>Properties\<close>

text \<open>
  C21. Creating a party for one player, on every branch. With every place taken it answers that it
  is out of memory and changes nothing; with the participants at capacity it answers that the session
  is full and changes neither the participants nor any party in use; otherwise it takes the first
  free place and one unused participant, which belong to each other afterwards, and leaves every
  other party and participant as they were. The joint invariant of parties and participants holds
  after each branch.
\<close>

theorem localPartiesCreate_all_branches:
  assumes wf: "sessionWf lps ps"
  shows "if usedParties lps = {0..<length (parties lps)} then
      nimbleServerLocalPartiesCreate E lps ps tc (player # players) stepId 1 =
        Some (NimbleServerErrOutOfParticipantMemory, None, lps, ps)
    else if card (usedIds ps) = unat (participantCapacity ps) then
      \<exists>lps'. nimbleServerLocalPartiesCreate E lps ps tc (player # players) stepId 1 =
          Some (NimbleServerErrSessionFull, None, lps', ps) \<and> sessionWf lps' ps \<and>
        (\<forall>j \<in> usedParties lps. parties lps' ! j = parties lps ! j)
    else \<exists>i k lps' ps'. nimbleServerLocalPartiesCreate E lps ps tc (player # players) stepId 1 =
          Some (0, Some i, lps', ps') \<and> sessionWf lps' ps' \<and>
        i < length (parties lps) \<and> i \<notin> usedParties lps \<and> (\<forall>j < i. j \<in> usedParties lps) \<and>
        (\<forall>j. j \<noteq> i \<longrightarrow> parties lps' ! j = parties lps ! j) \<and>
        lpIsUsed (parties lps' ! i) \<and> lpTransportConnection (parties lps' ! i) = tc \<and>
        refIndices (lpReferences (parties lps' ! i)) = {k} \<and>
        k < length (participants ps) \<and> \<not> pIsUsed (participants ps ! k) \<and>
        participants ps' = (participants ps)[k := joinedParticipant E (participants ps ! k) i stepId player (of_nat k)]"
proof (cases "usedParties lps = {0..<length (parties lps)}")
  case True
  with wf findFreeParty_full [of lps] show ?thesis
    by (simp add: nimbleServerLocalPartiesCreate_def sessionWf_def)
next
  case free: False
  let ?i = "LEAST j. j \<notin> usedParties lps"
  have i: "?i \<notin> usedParties lps"
    using findFreeParty_room(2) [OF _ free] wf by (simp add: sessionWf_def)
  show ?thesis
  proof (cases "card (usedIds ps) = unat (participantCapacity ps)")
    case True
    have "\<forall>j \<in> usedParties lps.
        (parties lps)[?i := (parties lps ! ?i)\<lparr>lpId := of_nat ?i\<rparr>] ! j = parties lps ! j"
      using i by (metis nth_list_update_neq)
    with free True localPartiesCreate_sessionFull [OF wf free True]
    show ?thesis by simp
  next
    case False
    moreover have "card (usedIds ps) \<le> unat (participantCapacity ps)"
      using card_usedIds_le [of ps] wf by (simp add: sessionWf_def participantsWf_def participantsShape_def)
    ultimately have "card (usedIds ps) < unat (participantCapacity ps)" by simp
    from localPartiesCreate_room [OF wf free this, of E tc player players stepId]
    obtain k lps' ps' where c: "nimbleServerLocalPartiesCreate E lps ps tc (player # players) stepId 1 =
        Some (0, Some ?i, lps', ps')" "sessionWf lps' ps'" "?i < length (parties lps)"
      "usedParties lps' = insert ?i (usedParties lps)" "\<forall>j. j \<noteq> ?i \<longrightarrow> parties lps' ! j = parties lps ! j"
      "lpTransportConnection (parties lps' ! ?i) = tc" "refIndices (lpReferences (parties lps' ! ?i)) = {k}"
      "k < length (participants ps)" "k \<notin> usedIds ps"
      "participants ps' = (participants ps)[k := joinedParticipant E (participants ps ! k) ?i stepId player (of_nat k)]"
      by (elim exE conjE) (rule that; assumption)
    have "lpIsUsed (parties lps' ! ?i)" using c(4) by (auto simp: usedParties_def)
    moreover have "\<not> pIsUsed (participants ps ! k)" using c(8,9) by (simp add: usedIds_def)
    moreover have "\<forall>j < ?i. j \<in> usedParties lps" using not_less_Least by blast
    ultimately have "\<exists>i k lps' ps'. nimbleServerLocalPartiesCreate E lps ps tc (player # players) stepId 1 =
          Some (0, Some i, lps', ps') \<and> sessionWf lps' ps' \<and>
        i < length (parties lps) \<and> i \<notin> usedParties lps \<and> (\<forall>j < i. j \<in> usedParties lps) \<and>
        (\<forall>j. j \<noteq> i \<longrightarrow> parties lps' ! j = parties lps ! j) \<and>
        lpIsUsed (parties lps' ! i) \<and> lpTransportConnection (parties lps' ! i) = tc \<and>
        refIndices (lpReferences (parties lps' ! i)) = {k} \<and>
        k < length (participants ps) \<and> \<not> pIsUsed (participants ps ! k) \<and>
        participants ps' = (participants ps)[k := joinedParticipant E (participants ps ! k) i stepId player (of_nat k)]"
      using c i by (intro exI [of _ ?i] exI [of _ k] exI [of _ lps'] exI [of _ ps'] conjI)
    with free False show ?thesis by (simp only: if_False)
  qed
qed

theorem localPartiesCreate_all_branches_witness:
  "\<exists>(ps :: demo NimbleServerParticipants) i lps' ps'. sessionWf blankParties ps \<and>
     nimbleServerLocalPartiesCreate (demoEnv ClogFatal) blankParties ps (Some 7) [2] 9 1 =
       Some (0, Some i, lps', ps') \<and> sessionWf lps' ps'"
proof -
  obtain ps :: "demo NimbleServerParticipants" where ps: "participantsWf ps" "usedIds ps = {}" "participantCapacity ps = 4"
    using demoRoster by blast
  note wf = blankParties_wf [OF ps(1,2)]
  then show ?thesis
    using localPartiesCreate_all_branches [OF wf(1), of "demoEnv ClogFatal" "Some 7" 2 "[]" 9] ps by auto
qed

end
