(* ===== verification/AuthoritativeSteps.thy ===== *)
theory AuthoritativeSteps
  imports LocalParties
begin

text \<open>
  Composing authoritative steps out of the participants' predicted steps:
  \<open>src/src/lib/authoritative_steps.c\<close>. The composition of one step is split at the seams of the
  C function: reading a participant's step, the change of its state, and what is written for it. The
  array of parties is an argument, because a participant's \<open>inParty\<close> points into it.
\<close>

section \<open>Composing one step\<close>

text \<open>Following \<open>participant->inParty\<close> to change the quality of the party.\<close>

definition updatePartyQuality ::
  "(NimbleServerConnectionQuality \<Rightarrow> NimbleServerConnectionQuality) \<Rightarrow> nat option \<Rightarrow>
   'x NimbleServerLocalParty list \<Rightarrow> 'x NimbleServerLocalParty list option" where
  "updatePartyQuality f inParty lps = do {
     j \<leftarrow> inParty;
     modifyAt lps j (\<lambda>party. party\<lparr>lpQuality := f (lpQuality party)\<rparr>)
   }"

text \<open>The read of one participant's step: its type so far, the octet count to use and the read buffer.\<close>

definition composeReadStep ::
  "'x Env \<Rightarrow> StepId \<Rightarrow> 'x NimbleServerParticipant \<Rightarrow> 'x NimbleServerLocalParty list \<Rightarrow>
   (NimbleSerializeStepType \<times> u8 \<times> octets \<times> 'x NimbleServerParticipant \<times> 'x NimbleServerLocalParty list) option" where
  "composeReadStep E lookingFor participant lps = do {
     let (readStepOctetCount, stepReadBuffer, steps) =
       nbsStepsReadExactStepId E (pSteps participant) lookingFor 1024;
     let participant1 = participant\<lparr>pSteps := steps\<rparr>;
     (stepType, readStepOctetCount1, lps1) \<leftarrow>
       (if readStepOctetCount < 0 then
          (if readStepOctetCount = NimbleStepErrCollectionIsEmpty E then do {
             lps1 \<leftarrow> updatePartyQuality (\<lambda>q. nimbleServerConnectionQualityAddedForcedSteps q 1)
                      (pInParty participant1) lps;
             Some (NimbleSerializeStepTypeStepNotProvidedInTime, 0, lps1)
           } else do {
             clogError (clogMode E);
             Some (NimbleSerializeStepTypeNormal, readStepOctetCount, lps)
           })
        else do {
          lps1 \<leftarrow> updatePartyQuality nimbleServerConnectionQualityProvidedUsableStep (pInParty participant1) lps;
          Some (NimbleSerializeStepTypeNormal, readStepOctetCount, lps1)
        });
     readStepOctetCountToUse \<leftarrow> tc_convert_uint8_t_from_ssize E readStepOctetCount1;
     Some (stepType, readStepOctetCountToUse, stepReadBuffer, participant1, lps1)
   }"

text \<open>The switch over the state of the participant at position \<open>i\<close>.\<close>

definition composeSwitchState ::
  "clog \<Rightarrow> nat \<Rightarrow> NimbleSerializeStepType \<Rightarrow> 'x NimbleServerParticipants \<Rightarrow>
   (NimbleSerializeStepType \<times> 'x NimbleServerParticipants) option" where
  "composeSwitchState c i stepType self = do {
     participant \<leftarrow> readAt (participants self) i;
     case pState participant of
       NimbleServerParticipantStateWaitingForRejoin \<Rightarrow> Some (NimbleSerializeStepTypeWaitingForReJoin, self)
     | NimbleServerParticipantStateJustJoined \<Rightarrow> do {
         ps \<leftarrow> modifyAt (participants self) i (\<lambda>p. p\<lparr>pState := NimbleServerParticipantStateNormal\<rparr>);
         Some (NimbleSerializeStepTypeJoined, self\<lparr>participants := ps\<rparr>)
       }
     | NimbleServerParticipantStateLeaving \<Rightarrow> do {
         self1 \<leftarrow> nimbleServerParticipantsDestroy c self (pId participant);
         Some (NimbleSerializeStepTypeLeft, self1)
       }
     | NimbleServerParticipantStateNormal \<Rightarrow> Some (stepType, self)
     | NimbleServerParticipantStateDestroyed \<Rightarrow> Some (stepType, self)
   }"

text \<open>What is written for one participant; a negative status is returned to the caller.\<close>

definition composeWriteStep ::
  "'x Env \<Rightarrow> NimbleSerializeStepType \<Rightarrow> u8 \<Rightarrow> octets \<Rightarrow> 'x NimbleServerParticipant \<Rightarrow>
   'x NimbleServerLocalParty list \<Rightarrow> 'x FldOutStream \<Rightarrow> (int \<times> 'x FldOutStream) option" where
  "composeWriteStep E stepType readStepOctetCountToUse stepReadBuffer participant lps composeStream = do {
     let mask = (if stepType \<noteq> NimbleSerializeStepTypeNormal then 0x80 else 0x00 :: u8);
     let (serializeError, s1) = fldOutStreamWriteUInt8 E composeStream (or mask (pId participant));
     if serializeError < 0 then Some (serializeError, s1)
     else do {
       s2 \<leftarrow> (if mask \<noteq> 0 then do {
                let s = snd (fldOutStreamWriteUInt8 E s1 (stepTypeOctet E stepType));
                if stepType = NimbleSerializeStepTypeJoined then do {
                  j \<leftarrow> pInParty participant;
                  party \<leftarrow> readAt lps j;
                  Some (snd (fldOutStreamWriteUInt8 E s (lpId party)))
                } else Some s
              } else Some s1);
       s3 \<leftarrow> (if stepType = NimbleSerializeStepTypeNormal \<or> stepType = NimbleSerializeStepTypeJoined then do {
                let s = snd (fldOutStreamWriteUInt8 E s2 readStepOctetCountToUse);
                n \<leftarrow> tc_convert_uint8_t_from_ssize E (uint readStepOctetCountToUse);
                Some (snd (fldOutStreamWriteOctets E s (take (unat n) stepReadBuffer)))
              } else Some s2);
       Some (0, s3)
     }
   }"

text \<open>One round of the loop, for a participant in use, and the loop with \<open>n\<close> positions to go.\<close>

definition composeParticipant ::
  "'x Env \<Rightarrow> StepId \<Rightarrow> nat \<Rightarrow> 'x FldOutStream \<Rightarrow> 'x NimbleServerParticipants \<Rightarrow> 'x NimbleServerLocalParty list \<Rightarrow>
   (int \<times> 'x FldOutStream \<times> 'x NimbleServerParticipants \<times> 'x NimbleServerLocalParty list) option" where
  "composeParticipant E lookingFor i composeStream self lps = do {
     participant \<leftarrow> readAt (participants self) i;
     (stepType, octetCount, stepReadBuffer, participant1, lps1) \<leftarrow> composeReadStep E lookingFor participant lps;
     let self1 = self\<lparr>participants := (participants self)[i := participant1]\<rparr>;
     (stepType1, self2) \<leftarrow> composeSwitchState (clogMode E) i stepType self1;
     participant2 \<leftarrow> readAt (participants self2) i;
     (err, stream1) \<leftarrow> composeWriteStep E stepType1 octetCount stepReadBuffer participant2 lps1 composeStream;
     Some (err, stream1, self2, lps1)
   }"

fun composeFrom ::
  "'x Env \<Rightarrow> StepId \<Rightarrow> nat \<Rightarrow> nat \<Rightarrow> 'x FldOutStream \<Rightarrow> size_t \<Rightarrow> 'x NimbleServerParticipants \<Rightarrow>
   'x NimbleServerLocalParty list \<Rightarrow>
   (int \<times> 'x FldOutStream \<times> size_t \<times> 'x NimbleServerParticipants \<times> 'x NimbleServerLocalParty list) option" where
  "composeFrom E lookingFor i 0 composeStream foundParticipantCount self lps =
     Some (0, composeStream, foundParticipantCount, self, lps)"
| "composeFrom E lookingFor i (Suc n) composeStream foundParticipantCount self lps = do {
     participant \<leftarrow> readAt (participants self) i;
     if \<not> pIsUsed participant
     then composeFrom E lookingFor (Suc i) n composeStream foundParticipantCount self lps
     else do {
       (err, stream1, self1, lps1) \<leftarrow> composeParticipant E lookingFor i composeStream self lps;
       if err < 0 then Some (err, stream1, foundParticipantCount + 1, self1, lps1)
       else composeFrom E lookingFor (Suc i) n stream1 (foundParticipantCount + 1) self1 lps1
     }
   }"

text \<open>The answer of the C function, the octets in the buffer, and the changed collections.\<close>

definition composeOneAuthoritativeStep ::
  "'x Env \<Rightarrow> 'x NimbleServerParticipants \<Rightarrow> 'x NimbleServerLocalParty list \<Rightarrow> StepId \<Rightarrow> size_t \<Rightarrow>
   (int \<times> octets \<times> 'x NimbleServerParticipants \<times> 'x NimbleServerLocalParty list) option" where
  "composeOneAuthoritativeStep E self lps lookingFor maxLength = do {
     let stream0 = snd (fldOutStreamWriteUInt8 E (fldOutStreamInit E maxLength) (ucast (participantCount self)));
     (err, stream1, foundParticipantCount, self1, lps1) \<leftarrow>
       composeFrom E lookingFor 0 (unat (participantCapacity self)) stream0 0 self lps;
     if err < 0 then Some (err, outOctets stream1, self1, lps1)
     else do {
       clogAssert (clogMode E) (foundParticipantCount = participantCount self1);
       Some (sint (outPos stream1), outOctets stream1, self1, lps1)
     }
   }"

section \<open>When to compose\<close>

text \<open>
  The loop of \<open>maxPredictedStepContributionForParticipants\<close>: the greatest number of steps some
  participant can advance, and how many cannot contribute.
\<close>

fun maxContributionFrom ::
  "StepId \<Rightarrow> 'x NimbleServerParticipant list \<Rightarrow> nat \<Rightarrow> nat \<Rightarrow> size_t \<Rightarrow> size_t \<Rightarrow> (size_t \<times> size_t) option" where
  "maxContributionFrom lookingFor ps i 0 maxCount canNot = Some (maxCount, canNot)"
| "maxContributionFrom lookingFor ps i (Suc n) maxCount canNot = do {
     participant \<leftarrow> readAt ps i;
     if \<not> pIsUsed participant then maxContributionFrom lookingFor ps (Suc i) n maxCount canNot
     else
       let (canAdvance, canNot1) =
         (if stepsCount (pSteps participant) > 0 \<and> expectedWriteId (pSteps participant) > lookingFor
          then (ucast (expectedWriteId (pSteps participant) - lookingFor + 1), canNot)
          else (0, canNot + 1));
         maxCount1 = (if canAdvance > maxCount then canAdvance else maxCount)
       in maxContributionFrom lookingFor ps (Suc i) n maxCount1 canNot1
   }"

definition maxPredictedStepContributionForParticipants ::
  "'x NimbleServerParticipants \<Rightarrow> StepId \<Rightarrow> (size_t \<times> size_t) option" where
  "maxPredictedStepContributionForParticipants self lookingFor =
     maxContributionFrom lookingFor (participants self) 0 (unat (participantCapacity self)) 0 0"

definition shouldComposeNewAuthoritativeStep :: "'x NimbleServerParticipants \<Rightarrow> StepId \<Rightarrow> bool option" where
  "shouldComposeNewAuthoritativeStep self lookingFor = do {
     (maxCountStepAheadForSomeParticipant, connectionCountThatCouldNotContribute) \<leftarrow>
       maxPredictedStepContributionForParticipants self lookingFor;
     Some ((maxCountStepAheadForSomeParticipant > 3 \<and> connectionCountThatCouldNotContribute = 0) \<or>
           maxCountStepAheadForSomeParticipant > 5)
   }"

definition canAdvanceDueToDistanceFromLastState :: "'x Env \<Rightarrow> 'x NbsSteps \<Rightarrow> bool" where
  "canAdvanceDueToDistanceFromLastState E steps = (stepsCount steps < NBS_WINDOW_SIZE E div 2)"

definition shouldAdvanceAuthoritative ::
  "'x Env \<Rightarrow> 'x NimbleServerParticipants \<Rightarrow> 'x NbsSteps \<Rightarrow> bool option" where
  "shouldAdvanceAuthoritative E self steps = do {
     shouldCompose \<leftarrow> shouldComposeNewAuthoritativeStep self (expectedWriteId steps);
     Some (shouldCompose \<and> canAdvanceDueToDistanceFromLastState E steps)
   }"

section \<open>Composing as many steps as possible\<close>

text \<open>The body of the \<open>while\<close> loop; \<open>Some code\<close> is a \<open>return\<close> from inside it.\<close>

definition composeRound ::
  "'x Env \<Rightarrow> 'x NimbleServerGame \<Rightarrow> 'x NimbleServerLocalParty list \<Rightarrow>
   (int option \<times> 'x NimbleServerGame \<times> 'x NimbleServerLocalParty list) option" where
  "composeRound E game lps = do {
     let lookingFor = expectedWriteId (authoritativeSteps game);
     (octetCount, composeStepBuffer, ps, lps1) \<leftarrow>
       composeOneAuthoritativeStep E (gameParticipants game) lps lookingFor 1024;
     let game1 = game\<lparr>gameParticipants := ps\<rparr>;
     if octetCount \<le> 0 then Some (Some 0, game1, lps1)
     else do {
       let (octetsWritten, steps) =
         nbsStepsWrite E (authoritativeSteps game1) lookingFor (take (nat octetCount) composeStepBuffer);
       let game2 = game1\<lparr>authoritativeSteps := steps\<rparr>;
       Some (if octetsWritten < 0 then Some octetsWritten else None, game2, lps1)
     }
   }"

partial_function (option) composeLoop ::
  "'x Env \<Rightarrow> size_t \<Rightarrow> 'x NimbleServerGame \<Rightarrow> 'x NimbleServerLocalParty list \<Rightarrow>
   (int \<times> 'x NimbleServerGame \<times> 'x NimbleServerLocalParty list) option" where
  "composeLoop E writtenAuthoritativeSteps game lps = do {
     go \<leftarrow> shouldAdvanceAuthoritative E (gameParticipants game) (authoritativeSteps game);
     if \<not> go then Some (int_of_size writtenAuthoritativeSteps, game, lps)
     else do {
       r \<leftarrow> composeRound E game lps;
       case fst r of
         Some code \<Rightarrow> Some (code, snd r)
       | None \<Rightarrow> composeLoop E (writtenAuthoritativeSteps + 1) (fst (snd r)) (snd (snd r))
     }
   }"

definition nimbleServerComposeAuthoritativeSteps ::
  "'x Env \<Rightarrow> 'x NimbleServerGame \<Rightarrow> 'x NimbleServerLocalParty list \<Rightarrow>
   (int \<times> 'x NimbleServerGame \<times> 'x NimbleServerLocalParty list) option" where
  "nimbleServerComposeAuthoritativeSteps E game lps = composeLoop E 0 game lps"

section \<open>Specification\<close>

text \<open>
  What one participant contributes to a step: the type announced for it, its octets, the participant
  left behind and the change of its party's quality.
\<close>

definition stepRead :: "'x Env \<Rightarrow> StepId \<Rightarrow> 'x NimbleServerParticipant \<Rightarrow> int \<times> octets \<times> 'x NbsSteps" where
  "stepRead E lookingFor p = nbsStepsReadExactStepId E (pSteps p) lookingFor 1024"

definition composedStepType ::
  "'x Env \<Rightarrow> StepId \<Rightarrow> 'x NimbleServerParticipant \<Rightarrow> NimbleSerializeStepType" where
  "composedStepType E lookingFor p = (case pState p of
       NimbleServerParticipantStateWaitingForRejoin \<Rightarrow> NimbleSerializeStepTypeWaitingForReJoin
     | NimbleServerParticipantStateJustJoined \<Rightarrow> NimbleSerializeStepTypeJoined
     | NimbleServerParticipantStateLeaving \<Rightarrow> NimbleSerializeStepTypeLeft
     | _ \<Rightarrow> if fst (stepRead E lookingFor p) < 0 then NimbleSerializeStepTypeStepNotProvidedInTime
           else NimbleSerializeStepTypeNormal)"

definition composedOctets :: "'x Env \<Rightarrow> StepId \<Rightarrow> 'x NimbleServerParticipant \<Rightarrow> octets" where
  "composedOctets E lookingFor p =
     (if fst (stepRead E lookingFor p) < 0 then [] else fst (snd (stepRead E lookingFor p)))"

definition encodeContribution ::
  "'x Env \<Rightarrow> NimbleSerializeStepType \<Rightarrow> u8 \<Rightarrow> u8 \<Rightarrow> octets \<Rightarrow> octets" where
  "encodeContribution E stepType participantId partyId octs =
     (if stepType = NimbleSerializeStepTypeNormal then [participantId]
      else [or 0x80 participantId, stepTypeOctet E stepType]) @
     (if stepType = NimbleSerializeStepTypeJoined then [partyId] else []) @
     (if stepType = NimbleSerializeStepTypeNormal \<or> stepType = NimbleSerializeStepTypeJoined
      then of_nat (length octs) # octs else [])"

text \<open>The party id is only looked at for a participant that just joined.\<close>

definition contributionOctets ::
  "'x Env \<Rightarrow> StepId \<Rightarrow> 'x NimbleServerLocalParty list \<Rightarrow> 'x NimbleServerParticipant \<Rightarrow> octets" where
  "contributionOctets E lookingFor lps p =
     encodeContribution E (composedStepType E lookingFor p) (pId p) (lpId (lps ! the (pInParty p)))
       (composedOctets E lookingFor p)"

definition participantAfter ::
  "'x Env \<Rightarrow> StepId \<Rightarrow> 'x NimbleServerParticipant \<Rightarrow> 'x NimbleServerParticipant" where
  "participantAfter E lookingFor p =
     (let p1 = p\<lparr>pSteps := snd (snd (stepRead E lookingFor p))\<rparr> in
      case pState p of
        NimbleServerParticipantStateJustJoined \<Rightarrow> p1\<lparr>pState := NimbleServerParticipantStateNormal\<rparr>
      | NimbleServerParticipantStateLeaving \<Rightarrow> nimbleServerParticipantDestroy p1
      | _ \<Rightarrow> p1)"

definition qualityAfter ::
  "'x Env \<Rightarrow> StepId \<Rightarrow> 'x NimbleServerParticipant \<Rightarrow> NimbleServerConnectionQuality \<Rightarrow>
   NimbleServerConnectionQuality" where
  "qualityAfter E lookingFor p q =
     (if fst (stepRead E lookingFor p) < 0 then nimbleServerConnectionQualityAddedForcedSteps q 1
      else nimbleServerConnectionQualityProvidedUsableStep q)"

text \<open>Two arrays of parties that agree but for the quality.\<close>

definition sameButQuality :: "'x NimbleServerLocalParty list \<Rightarrow> 'x NimbleServerLocalParty list \<Rightarrow> bool" where
  "sameButQuality = list_all2 (\<lambda>a b. \<exists>q. b = a\<lparr>lpQuality := q\<rparr>)"

text \<open>The slots in use from position \<open>i\<close> on, in order, and the participants leaving.\<close>

definition usedFrom :: "nat \<Rightarrow> 'x NimbleServerParticipants \<Rightarrow> 'x NimbleServerParticipant list" where
  "usedFrom i ps = filter pIsUsed (drop i (participants ps))"

definition isLeaving :: "'x NimbleServerParticipant \<Rightarrow> bool" where
  "isLeaving p \<longleftrightarrow> pState p = NimbleServerParticipantStateLeaving"

definition composeLaws :: "'x Env \<Rightarrow> bool" where
  "composeLaws E \<longleftrightarrow> stepReadLaw E \<and> convertLaw E"

text \<open>What the loop does to the slots from \<open>i\<close> on.\<close>

definition composedFrom ::
  "'x Env \<Rightarrow> StepId \<Rightarrow> nat \<Rightarrow> 'x NimbleServerParticipant list \<Rightarrow> 'x NimbleServerParticipant list" where
  "composedFrom E lookingFor i ps = take i ps @
     map (\<lambda>p. if pIsUsed p then participantAfter E lookingFor p else p) (drop i ps)"

text \<open>
  The rule for composing, over the participants in use: \<open>stepsAvailable\<close> is the number of steps from
  \<open>lookingFor\<close> on that a participant has delivered.
\<close>

definition stepsAvailable :: "StepId \<Rightarrow> 'x NimbleServerParticipant \<Rightarrow> nat" where
  "stepsAvailable lookingFor p =
     (if stepsCount (pSteps p) > 0 \<and> expectedWriteId (pSteps p) > lookingFor
      then unat (expectedWriteId (pSteps p)) - unat lookingFor else 0)"

definition composeRule :: "StepId \<Rightarrow> 'x NimbleServerParticipant list \<Rightarrow> bool" where
  "composeRule lookingFor ps \<longleftrightarrow>
     (\<forall>p \<in> set ps. stepsAvailable lookingFor p > 0) \<and> (\<exists>p \<in> set ps. stepsAvailable lookingFor p \<ge> 3) \<or>
     (\<exists>p \<in> set ps. stepsAvailable lookingFor p \<ge> 5)"

definition noneLeaving :: "'x NimbleServerParticipants \<Rightarrow> bool" where
  "noneLeaving ps \<longleftrightarrow> (\<forall>p \<in> set (usedFrom 0 ps). \<not> isLeaving p)"

text \<open>What the scan counts for one participant.\<close>

definition canAdvanceSteps :: "StepId \<Rightarrow> 'x NimbleServerParticipant \<Rightarrow> size_t" where
  "canAdvanceSteps lookingFor p =
     (if stepsCount (pSteps p) > 0 \<and> expectedWriteId (pSteps p) > lookingFor
      then ucast (expectedWriteId (pSteps p) - lookingFor + 1) else 0)"

text \<open>
  How the loop ends: with a negative code when a step could not be written; otherwise \<open>k\<close> steps were
  added without passing half the window, and the answer is their number, no further step being due,
  or 0 when a step could not be composed.
\<close>

definition composeEnds ::
  "'x Env \<Rightarrow> 'x NimbleServerGame \<Rightarrow> size_t \<Rightarrow> int \<Rightarrow> 'x NimbleServerGame \<Rightarrow> bool" where
  "composeEnds E game w r game' \<longleftrightarrow> r < 0 \<or>
     (\<exists>k. (k > 0 \<longrightarrow> unat (stepsCount (authoritativeSteps game)) + k \<le> unat (NBS_WINDOW_SIZE E div 2)) \<and>
        expectedWriteId (authoritativeSteps game') = expectedWriteId (authoritativeSteps game) + of_nat k \<and>
        stepsCount (authoritativeSteps game') = stepsCount (authoritativeSteps game) + of_nat k \<and>
        (r = int_of_size (w + of_nat k) \<and>
           shouldAdvanceAuthoritative E (gameParticipants game') (authoritativeSteps game') = Some False \<or>
         r = 0))"

text \<open>
  A reader of composed steps: each contribution gives its type, the participant, the party of a
  participant that joined, and the octets. \<open>typeOf\<close> reads the octet of a step type.
\<close>

type_synonym contribution = "NimbleSerializeStepType \<times> u8 \<times> u8 option \<times> octets"

definition takeCounted :: "octets \<Rightarrow> (octets \<times> octets) option" where
  "takeCounted bs = (case bs of [] \<Rightarrow> None
     | n # r \<Rightarrow> if unat n \<le> length r then Some (take (unat n) r, drop (unat n) r) else None)"

definition decodeContribution ::
  "(u8 \<Rightarrow> NimbleSerializeStepType option) \<Rightarrow> octets \<Rightarrow> (contribution \<times> octets) option" where
  "decodeContribution typeOf bs = (case bs of [] \<Rightarrow> None
     | b # r \<Rightarrow>
       if b < 0x80 then do {
         (octs, r1) \<leftarrow> takeCounted r;
         Some ((NimbleSerializeStepTypeNormal, b, None, octs), r1)
       } else (case r of [] \<Rightarrow> None
         | t # r1 \<Rightarrow> do {
             stepType \<leftarrow> typeOf t;
             if stepType = NimbleSerializeStepTypeJoined then (case r1 of [] \<Rightarrow> None
               | party # r2 \<Rightarrow> do {
                   (octs, r3) \<leftarrow> takeCounted r2;
                   Some ((stepType, and b 0x7F, Some party, octs), r3)
                 })
             else Some ((stepType, and b 0x7F, None, []), r1)
           }))"

primrec decodeContributions ::
  "(u8 \<Rightarrow> NimbleSerializeStepType option) \<Rightarrow> nat \<Rightarrow> octets \<Rightarrow> (contribution list \<times> octets) option" where
  "decodeContributions typeOf 0 bs = Some ([], bs)"
| "decodeContributions typeOf (Suc n) bs = do {
     (c, r) \<leftarrow> decodeContribution typeOf bs;
     (cs, r1) \<leftarrow> decodeContributions typeOf n r;
     Some (c # cs, r1)
   }"

definition decodeAuthoritativeStep ::
  "(u8 \<Rightarrow> NimbleSerializeStepType option) \<Rightarrow> octets \<Rightarrow> contribution list option" where
  "decodeAuthoritativeStep typeOf bs = (case bs of [] \<Rightarrow> None
     | n # r \<Rightarrow> do { (cs, rest) \<leftarrow> decodeContributions typeOf (unat n) r; if rest = [] then Some cs else None })"

definition contributionOf ::
  "'x Env \<Rightarrow> StepId \<Rightarrow> 'x NimbleServerLocalParty list \<Rightarrow> 'x NimbleServerParticipant \<Rightarrow> contribution" where
  "contributionOf E lookingFor lps p =
     (let t = composedStepType E lookingFor p in
      (t, pId p, if t = NimbleSerializeStepTypeJoined then Some (lpId (lps ! the (pInParty p))) else None,
       if t = NimbleSerializeStepTypeNormal \<or> t = NimbleSerializeStepTypeJoined
       then composedOctets E lookingFor p else []))"

fun demoStepTypeOf :: "u8 \<Rightarrow> NimbleSerializeStepType option" where
  "demoStepTypeOf b = (if b = 0 then Some NimbleSerializeStepTypeNormal
     else if b = 1 then Some NimbleSerializeStepTypeStepNotProvidedInTime
     else if b = 2 then Some NimbleSerializeStepTypeWaitingForReJoin
     else if b = 3 then Some NimbleSerializeStepTypeJoined
     else if b = 4 then Some NimbleSerializeStepTypeLeft else None)"

end
