(* ===== verification/Composition.thy ===== *)
theory Composition
  imports AuthoritativeSteps
begin

text \<open>
  What composing achieves: the facts about \<open>src/src/lib/authoritative_steps.c\<close> as modelled in
  \<open>AuthoritativeSteps\<close>, from one round of the loop over the participants up to the loop that
  composes as many steps as possible.
\<close>

section \<open>Lemmas\<close>

lemma participantsWf_update:
  assumes "participantsWf ps" "i < length (participants ps)" "pIsUsed p = pIsUsed (participants ps ! i)"
    "pId p = pId (participants ps ! i)"
  shows "participantsWf (ps\<lparr>participants := (participants ps)[i := p]\<rparr>)"
    "usedIds (ps\<lparr>participants := (participants ps)[i := p]\<rparr>) = usedIds ps"
proof -
  show used: "usedIds (ps\<lparr>participants := (participants ps)[i := p]\<rparr>) = usedIds ps"
    using assms(2,3) by (auto simp: usedIds_def nth_list_update)
  show "participantsWf (ps\<lparr>participants := (participants ps)[i := p]\<rparr>)"
    using assms used by (auto simp: participantsWf_def participantsShape_def nth_list_update)
qed

lemma composeReadStep_run:
  assumes laws: "composeLaws E" and j: "pInParty p = Some j" "j < length lps"
  shows "composeReadStep E lookingFor p lps = Some
    (if fst (stepRead E lookingFor p) < 0 then NimbleSerializeStepTypeStepNotProvidedInTime
     else NimbleSerializeStepTypeNormal,
     of_nat (length (composedOctets E lookingFor p)), fst (snd (stepRead E lookingFor p)),
     p\<lparr>pSteps := snd (snd (stepRead E lookingFor p))\<rparr>,
     lps[j := (lps ! j)\<lparr>lpQuality := qualityAfter E lookingFor p (lpQuality (lps ! j))\<rparr>])"
proof -
  obtain r os st where rd: "nbsStepsReadExactStepId E (pSteps p) lookingFor 1024 = (r, os, st)"
    by (cases "nbsStepsReadExactStepId E (pSteps p) lookingFor 1024")
  from laws rd have r: "r = NimbleStepErrCollectionIsEmpty E \<and> r < 0 \<or> 0 \<le> r \<and> r < 256 \<and> length os = nat r"
    unfolding composeLaws_def stepReadLaw_def by metis
  have conv: "tc_convert_uint8_t_from_ssize E n = Some (word_of_int n)" if "0 \<le> n" "n < 256" for n
    using laws that by (simp add: composeLaws_def convertLaw_def)
  show ?thesis
  proof (cases "r < 0")
    case True
    with r rd j conv [of 0] show ?thesis
      by (simp add: composeReadStep_def stepRead_def updatePartyQuality_def qualityAfter_def composedOctets_def)
  next
    case False
    with r have r': "r = int (length os)" "length os < 256" by auto
    with conv [of r] have "tc_convert_uint8_t_from_ssize E (int (length os)) = Some (of_nat (length os))" by simp
    with rd j r'(1) show ?thesis
      by (simp add: composeReadStep_def stepRead_def updatePartyQuality_def qualityAfter_def composedOctets_def)
  qed
qed

lemma composedOctets_bound:
  assumes "composeLaws E"
  shows "length (composedOctets E lookingFor p) < 256"
proof -
  obtain r os st where rd: "nbsStepsReadExactStepId E (pSteps p) lookingFor 1024 = (r, os, st)"
    by (cases "nbsStepsReadExactStepId E (pSteps p) lookingFor 1024")
  from assms rd have "r = NimbleStepErrCollectionIsEmpty E \<and> r < 0 \<or> 0 \<le> r \<and> r < 256 \<and> length os = nat r"
    unfolding composeLaws_def stepReadLaw_def by metis
  with rd show ?thesis by (auto simp: composedOctets_def stepRead_def)
qed

lemma composeSwitchState_run:
  assumes wf: "participantsWf ps" and i: "i < length (participants ps)" "pIsUsed (participants ps ! i)"
  defines "p \<equiv> participants ps ! i"
  shows "\<exists>t' ps'. composeSwitchState c i t ps = Some (t', ps') \<and> participantsWf ps' \<and>
    participantCapacity ps' = participantCapacity ps \<and>
    usedIds ps' = (if isLeaving p then usedIds ps - {i} else usedIds ps) \<and>
    (case pState p of
       NimbleServerParticipantStateWaitingForRejoin \<Rightarrow>
         t' = NimbleSerializeStepTypeWaitingForReJoin \<and> participants ps' = (participants ps)[i := p]
     | NimbleServerParticipantStateJustJoined \<Rightarrow> t' = NimbleSerializeStepTypeJoined \<and>
         participants ps' = (participants ps)[i := p\<lparr>pState := NimbleServerParticipantStateNormal\<rparr>]
     | NimbleServerParticipantStateLeaving \<Rightarrow> t' = NimbleSerializeStepTypeLeft \<and>
         participants ps' = (participants ps)[i := nimbleServerParticipantDestroy p]
     | _ \<Rightarrow> t' = t \<and> participants ps' = (participants ps)[i := p])"
proof -
  have id: "unat (pId p) = i" using wf i by (simp add: p_def participantsWf_def participantsShape_def)
  have used: "unat (pId p) \<in> usedIds ps" using i id by (simp add: usedIds_def)
  obtain ps' where d: "nimbleServerParticipantsDestroy c ps (pId p) = Some ps'" "participantsWf ps'"
    "usedIds ps' = usedIds ps - {unat (pId p)}"
    "participants ps' = (participants ps)[unat (pId p) := nimbleServerParticipantDestroy (participants ps ! unat (pId p))]"
    "participantCapacity ps' = participantCapacity ps"
    using participantsDestroy_used [OF wf used] by blast
  show ?thesis
    using i wf d id participantsWf_update [OF wf i(1), of "p\<lparr>pState := NimbleServerParticipantStateNormal\<rparr>"]
    by (cases "pState p") (simp_all add: composeSwitchState_def isLeaving_def p_def)
qed

lemma convertLaw_u8: "convertLaw E \<Longrightarrow> tc_convert_uint8_t_from_ssize E (uint (n :: u8)) = Some n"
  using unsigned_less [of n, where 'a = int] by (simp add: convertLaw_def)

lemma composeWriteStep_returns:
  assumes "convertLaw E" "t = NimbleSerializeStepTypeJoined \<Longrightarrow> \<exists>j < length lps. pInParty p = Some j"
  shows "\<exists>err s'. composeWriteStep E t n buf p lps s = Some (err, s') \<and> err \<le> 0"
proof (cases "t = NimbleSerializeStepTypeJoined")
  case True
  with assms show ?thesis
    by (auto simp: composeWriteStep_def convertLaw_u8 Let_def split: prod.splits)
next
  case False
  with assms(1) show ?thesis
    by (cases t) (auto simp: composeWriteStep_def convertLaw_u8 Let_def split: prod.splits)
qed

lemma outStream_write8:
  assumes "outStreamLaw E" "streamHolds n s os" "length os + 1 \<le> unat n"
  shows "\<not> fst (fldOutStreamWriteUInt8 E s b) < 0"
    "streamHolds n (snd (fldOutStreamWriteUInt8 E s b)) (os @ [b])"
  using assms by (auto simp: outStreamLaw_def not_less)

lemma outStream_writeOctets:
  assumes "outStreamLaw E" "streamHolds n s os" "length os + length bs \<le> unat n"
  shows "streamHolds n (snd (fldOutStreamWriteOctets E s bs)) (os @ bs)"
  using assms by (simp add: outStreamLaw_def)

text \<open>The tail of a contribution: the octet count and the octets.\<close>

lemma composeWriteTail:
  assumes "outStreamLaw E" "streamHolds sz s os" "length os + Suc (length octs) \<le> unat sz"
    "length octs < 256" "take (length octs) buf = octs"
  shows "streamHolds sz (snd (fldOutStreamWriteOctets E (snd (fldOutStreamWriteUInt8 E s (of_nat (length octs))))
      (take (unat (of_nat (length octs) :: u8)) buf))) (os @ of_nat (length octs) # octs)"
  using outStream_writeOctets [OF assms(1) outStream_write8(2) [OF assms(1,2), of "of_nat (length octs)"], of octs]
    assms(3-5) by simp

lemma composeWriteStep_layout:
  assumes laws: "outStreamLaw E" "convertLaw E" and s: "streamHolds sz s os"
    and room: "length os + length (encodeContribution E t (pId p) partyId octs) \<le> unat sz"
    and octs: "length octs < 256" "take (length octs) buf = octs"
    and joined: "t = NimbleSerializeStepTypeJoined \<Longrightarrow>
      \<exists>j < length lps. pInParty p = Some j \<and> lpId (lps ! j) = partyId"
  shows "\<exists>s'. composeWriteStep E t (of_nat (length octs)) buf p lps s = Some (0, s') \<and>
    streamHolds sz s' (os @ encodeContribution E t (pId p) partyId octs)"
proof -
  note tail = composeWriteTail [OF laws(1) _ _ octs]
  note w8 = outStream_write8 [OF laws(1)]
  consider "t = NimbleSerializeStepTypeNormal" | "t = NimbleSerializeStepTypeJoined"
    | "t \<noteq> NimbleSerializeStepTypeNormal" "t \<noteq> NimbleSerializeStepTypeJoined" by blast
  then show ?thesis
  proof cases
    case 1
    let ?s1 = "snd (fldOutStreamWriteUInt8 E s (pId p))"
    have "\<not> fst (fldOutStreamWriteUInt8 E s (pId p)) < 0" "streamHolds sz ?s1 (os @ [pId p])"
      using w8 [OF s] room 1 by (simp_all add: encodeContribution_def)
    with tail [of sz ?s1 "os @ [pId p]"] 1 room laws(2) show ?thesis
      by (simp add: composeWriteStep_def encodeContribution_def split_beta Let_def convertLaw_u8)
  next
    case 2
    from joined [OF this] obtain j where j: "j < length lps" "pInParty p = Some j" "lpId (lps ! j) = partyId" by blast
    let ?s1 = "snd (fldOutStreamWriteUInt8 E s (or 0x80 (pId p)))"
    let ?s2 = "snd (fldOutStreamWriteUInt8 E ?s1 (stepTypeOctet E t))"
    let ?s3 = "snd (fldOutStreamWriteUInt8 E ?s2 partyId)"
    have s1: "\<not> fst (fldOutStreamWriteUInt8 E s (or 0x80 (pId p))) < 0" "streamHolds sz ?s1 (os @ [or 0x80 (pId p)])"
      using w8 [OF s] room 2 by (simp_all add: encodeContribution_def)
    have s2: "streamHolds sz ?s2 (os @ [or 0x80 (pId p), stepTypeOctet E t])"
      using w8(2) [OF s1(2)] room 2 by (simp add: encodeContribution_def)
    have "streamHolds sz ?s3 (os @ [or 0x80 (pId p), stepTypeOctet E t, partyId])"
      using w8(2) [OF s2] room 2 by (simp add: encodeContribution_def)
    with tail [of sz ?s3 "os @ [or 0x80 (pId p), stepTypeOctet E t, partyId]"] 2 room laws(2) j s1(1) show ?thesis
      by (simp add: composeWriteStep_def encodeContribution_def split_beta Let_def convertLaw_u8)
  next
    case 3
    let ?s1 = "snd (fldOutStreamWriteUInt8 E s (or 0x80 (pId p)))"
    have s1: "\<not> fst (fldOutStreamWriteUInt8 E s (or 0x80 (pId p))) < 0" "streamHolds sz ?s1 (os @ [or 0x80 (pId p)])"
      using w8 [OF s] room 3 by (simp_all add: encodeContribution_def)
    with w8(2) [OF s1(2), of "stepTypeOctet E t"] room 3 show ?thesis
      by (simp add: composeWriteStep_def encodeContribution_def split_beta Let_def)
  qed
qed

lemma participantAfter_simps [simp]:
  "pId (participantAfter E lookingFor p) = pId p"
  "pIsUsed (participantAfter E lookingFor p) = (pIsUsed p \<and> \<not> isLeaving p)"
  "\<not> isLeaving p \<Longrightarrow> pInParty (participantAfter E lookingFor p) = pInParty p"
  by (cases "pState p"; simp add: participantAfter_def Let_def nimbleServerParticipantDestroy_def isLeaving_def)+

lemma composeSwitch_after:
  fixes E :: "'x Env" and lookingFor :: StepId
  assumes wf: "participantsWf ps" and i: "i < length (participants ps)" "pIsUsed (participants ps ! i)"
  defines "p \<equiv> participants ps ! i"
  defines "ps1 \<equiv> ps\<lparr>participants := (participants ps)[i := p\<lparr>pSteps := snd (snd (stepRead E lookingFor p))\<rparr>]\<rparr>"
  defines "t \<equiv> (if fst (stepRead E lookingFor p) < 0 then NimbleSerializeStepTypeStepNotProvidedInTime
     else NimbleSerializeStepTypeNormal)"
  shows "\<exists>ps'. composeSwitchState c i t ps1 = Some (composedStepType E lookingFor p, ps') \<and> participantsWf ps' \<and>
    participantCapacity ps' = participantCapacity ps \<and>
    participants ps' = (participants ps)[i := participantAfter E lookingFor p] \<and>
    usedIds ps' = (if isLeaving p then usedIds ps - {i} else usedIds ps)"
proof -
  let ?p1 = "p\<lparr>pSteps := snd (snd (stepRead E lookingFor p))\<rparr>"
  have wf1: "participantsWf ps1" "usedIds ps1 = usedIds ps"
    using participantsWf_update [OF wf i(1), of ?p1] by (simp_all add: p_def ps1_def)
  have i1: "i < length (participants ps1)" "participants ps1 ! i = ?p1" "pIsUsed (participants ps1 ! i)"
    using i by (simp_all add: ps1_def p_def)
  obtain t' ps' where sw: "composeSwitchState c i t ps1 = Some (t', ps')" "participantsWf ps'"
    "participantCapacity ps' = participantCapacity ps1"
    "usedIds ps' = (if isLeaving ?p1 then usedIds ps1 - {i} else usedIds ps1)"
    "case pState ?p1 of
       NimbleServerParticipantStateWaitingForRejoin \<Rightarrow>
         t' = NimbleSerializeStepTypeWaitingForReJoin \<and> participants ps' = (participants ps1)[i := ?p1]
     | NimbleServerParticipantStateJustJoined \<Rightarrow> t' = NimbleSerializeStepTypeJoined \<and>
         participants ps' = (participants ps1)[i := ?p1\<lparr>pState := NimbleServerParticipantStateNormal\<rparr>]
     | NimbleServerParticipantStateLeaving \<Rightarrow> t' = NimbleSerializeStepTypeLeft \<and>
         participants ps' = (participants ps1)[i := nimbleServerParticipantDestroy ?p1]
     | _ \<Rightarrow> t' = t \<and> participants ps' = (participants ps1)[i := ?p1]"
    using composeSwitchState_run [OF wf1(1) i1(1,3), of c t] unfolding i1(2) by blast
  have upd: "(participants ps1)[i := q] = (participants ps)[i := q]" for q by (simp add: ps1_def)
  have "t' = composedStepType E lookingFor p \<and> participants ps' = (participants ps)[i := participantAfter E lookingFor p]"
    using sw(5) unfolding upd
    by (cases "pState p") (simp_all add: composedStepType_def participantAfter_def t_def Let_def)
  with sw(1-4) wf1(2) show ?thesis by (simp add: isLeaving_def ps1_def)
qed

lemma composeParticipant_run:
  assumes laws: "composeLaws E" and wf: "participantsWf ps"
    and i: "i < length (participants ps)" "pIsUsed (participants ps ! i)"
    and j: "pInParty (participants ps ! i) = Some j" "j < length lps"
  defines "p \<equiv> participants ps ! i"
  shows "\<exists>err s' ps'. composeParticipant E lookingFor i s ps lps = Some (err, s', ps',
      lps[j := (lps ! j)\<lparr>lpQuality := qualityAfter E lookingFor p (lpQuality (lps ! j))\<rparr>]) \<and> err \<le> 0 \<and>
    participantsWf ps' \<and> participantCapacity ps' = participantCapacity ps \<and>
    participants ps' = (participants ps)[i := participantAfter E lookingFor p] \<and>
    usedIds ps' = (if isLeaving p then usedIds ps - {i} else usedIds ps) \<and>
    (\<forall>sz os. outStreamLaw E \<and> streamHolds sz s os \<and>
        length os + length (contributionOctets E lookingFor lps p) \<le> unat sz \<longrightarrow>
      err = 0 \<and> streamHolds sz s' (os @ contributionOctets E lookingFor lps p))"
proof -
  let ?lps = "lps[j := (lps ! j)\<lparr>lpQuality := qualityAfter E lookingFor p (lpQuality (lps ! j))\<rparr>]"
  let ?n = "of_nat (length (composedOctets E lookingFor p)) :: u8" and ?buf = "fst (snd (stepRead E lookingFor p))"
  let ?t = "composedStepType E lookingFor p" and ?q = "participantAfter E lookingFor p"
  obtain ps' where sw: "composeSwitchState (clogMode E) i
      (if fst (stepRead E lookingFor p) < 0 then NimbleSerializeStepTypeStepNotProvidedInTime
       else NimbleSerializeStepTypeNormal)
      (ps\<lparr>participants := (participants ps)[i := p\<lparr>pSteps := snd (snd (stepRead E lookingFor p))\<rparr>]\<rparr>) =
        Some (?t, ps')"
    "participantsWf ps'" "participantCapacity ps' = participantCapacity ps"
    "participants ps' = (participants ps)[i := ?q]"
    "usedIds ps' = (if isLeaving p then usedIds ps - {i} else usedIds ps)"
    using composeSwitch_after [OF wf i] unfolding p_def by blast
  have conv: "convertLaw E" using laws by (simp add: composeLaws_def)
  have joined: "\<exists>j < length ?lps. pInParty ?q = Some j \<and> lpId (?lps ! j) = lpId (lps ! the (pInParty p))"
    if "?t = NimbleSerializeStepTypeJoined"
    using that j by (cases "pState p")
      (auto simp: composedStepType_def p_def isLeaving_def participantAfter_def Let_def split: if_splits)
  then obtain err s' where w: "composeWriteStep E ?t ?n ?buf ?q ?lps s = Some (err, s')" "err \<le> 0"
    using composeWriteStep_returns [OF conv, of ?t ?lps ?q ?n ?buf s] by blast
  have run: "composeParticipant E lookingFor i s ps lps = Some (err, s', ps', ?lps)"
    using i j sw(1,4) w(1) composeReadStep_run [OF laws, of p j lps lookingFor]
    by (simp add: composeParticipant_def p_def)
  have layout: "err = 0 \<and> streamHolds sz s' (os @ contributionOctets E lookingFor lps p)"
    if "outStreamLaw E" "streamHolds sz s os" "length os + length (contributionOctets E lookingFor lps p) \<le> unat sz" for sz os
  proof -
    have "take (length (composedOctets E lookingFor p)) ?buf = composedOctets E lookingFor p"
      by (simp add: composedOctets_def)
    with composeWriteStep_layout [OF that(1) conv that(2), of ?t ?q "lpId (lps ! the (pInParty p))"
        "composedOctets E lookingFor p" ?buf ?lps] that(3) composedOctets_bound [OF laws] joined w(1)
    show ?thesis by (auto simp: contributionOctets_def)
  qed
  from run w(2) sw(2-5) layout show ?thesis by blast
qed

lemma sameButQuality_refl: "sameButQuality lps lps"
  unfolding sameButQuality_def by (rule list_all2_refl) (metis NimbleServerLocalParty.surjective
      NimbleServerLocalParty.update_convs(9))

lemma sameButQuality_trans: "sameButQuality a b \<Longrightarrow> sameButQuality b c \<Longrightarrow> sameButQuality a c"
  unfolding sameButQuality_def by (rule list_all2_trans) auto

lemma sameButQuality_update: "sameButQuality lps (lps[j := (lps ! j)\<lparr>lpQuality := q\<rparr>])"
proof -
  have refl: "\<forall>i < length lps. \<exists>q. lps ! i = (lps ! i)\<lparr>lpQuality := q\<rparr>"
    using sameButQuality_refl [of lps] by (simp add: sameButQuality_def list_all2_conv_all_nth)
  have "\<exists>r. lps[j := (lps ! j)\<lparr>lpQuality := q\<rparr>] ! i = (lps ! i)\<lparr>lpQuality := r\<rparr>" if "i < length lps" for i
    using that refl by (cases "i = j") auto
  then show ?thesis by (simp add: sameButQuality_def list_all2_conv_all_nth)
qed

lemma contributionOctets_quality:
  "j < length lps \<Longrightarrow> contributionOctets E lookingFor (lps[j := (lps ! j)\<lparr>lpQuality := q\<rparr>]) p =
     contributionOctets E lookingFor lps p"
  by (cases "the (pInParty p) = j") (simp_all add: contributionOctets_def)

lemma usedFrom_step:
  "i < length (participants ps) \<Longrightarrow> usedFrom i ps =
     (if pIsUsed (participants ps ! i) then participants ps ! i # usedFrom (Suc i) ps else usedFrom (Suc i) ps)"
  by (simp add: usedFrom_def flip: Cons_nth_drop_Suc)

lemma composeStep_session:
  assumes wf: "sessionWf lps ps" and i: "i < length (participants ps)"
    and ps': "participantsWf ps'" "participants ps' = (participants ps)[i := participantAfter E lookingFor (participants ps ! i)]"
    and j: "j < length (parties lps)"
  shows "sessionWf (lps\<lparr>parties := (parties lps)[j := (parties lps ! j)\<lparr>lpQuality := q\<rparr>]\<rparr>) ps'"
proof -
  let ?p = "participants ps ! i" and ?lps = "lps\<lparr>parties := (parties lps)[j := (parties lps ! j)\<lparr>lpQuality := q\<rparr>]\<rparr>"
  have shape: "partiesShape lps" and own: "partiesOwn lps (participants ps)"
    and hp: "participantsHaveParty (length (parties lps)) (participants ps)" using wf by (auto simp: sessionWf_def)
  have "participantReferences (lpReferences (parties lps ! j)) \<noteq> []" using shape j by (auto simp: partiesShape_def)
  note shape' = partiesShape_update [OF shape j, of "(parties lps ! j)\<lparr>lpQuality := q\<rparr>", simplified, OF this]
  have owns: "partyOwns (participants ps') m (parties lps ! m)" if "m \<in> usedParties lps" for m
  proof -
    have o: "partyOwns (participants ps) m (parties lps ! m)" using own that by (simp add: partiesOwn_def)
    have "pState (participantAfter E lookingFor p) \<noteq> NimbleServerParticipantStateLeaving"
      if "pState p \<noteq> NimbleServerParticipantStateLeaving" for p :: "'a NimbleServerParticipant"
      using that by (cases "pState p") (simp_all add: participantAfter_def Let_def)
    with o i show ?thesis by (auto simp: partyOwns_def ps'(2) nth_list_update isLeaving_def)
  qed
  have "partiesOwn ?lps (participants ps')"
    unfolding partiesOwn_def shape'(2)
  proof
    fix m
    assume "m \<in> usedParties lps"
    from owns [OF this] j show "partyOwns (participants ps') m (parties ?lps ! m)"
      by (cases "m = j") (simp_all add: partyOwns_def)
  qed
  moreover have "participantsHaveParty (length (parties ?lps)) (participants ps')"
    using hp i set_update_subset_insert [of "participants ps" i "participantAfter E lookingFor ?p"]
    by (auto simp: participantsHaveParty_def ps'(2) subset_iff)
  moreover have "partiesRefs (length (participants ps')) (parties ?lps)"
    using wf j partiesRefs_update [of "length (participants ps)" "parties lps" "(parties lps ! j)\<lparr>lpQuality := q\<rparr>" j]
    by (auto simp: sessionWf_def ps'(2) partiesRefs_def)
  ultimately show ?thesis using shape'(1) ps'(1) by (simp add: sessionWf_def)
qed

lemma composedFrom_step:
  assumes "i < length ps"
  shows "composedFrom E lookingFor i ps = composedFrom E lookingFor (Suc i)
    (ps[i := (if pIsUsed (ps ! i) then participantAfter E lookingFor (ps ! i) else ps ! i)])"
  using assms by (auto simp: composedFrom_def take_Suc_conv_app_nth upd_conv_take_nth_drop drop_update_cancel
      simp flip: Cons_nth_drop_Suc)

text \<open>One participant in use: its contribution, what it leaves behind, and what is left to compose.\<close>

lemma composeFrom_used:
  assumes laws: "composeLaws E" and wf: "sessionWf lps ps" and i: "i < length (participants ps)"
    and used: "pIsUsed (participants ps ! i)"
  obtains err s1 ps1 pl where "composeParticipant E lookingFor i s ps (parties lps) = Some (err, s1, ps1, pl)" "err \<le> 0"
    "participantCapacity ps1 = participantCapacity ps" "length (participants ps1) = length (participants ps)"
    "\<forall>sz os. outStreamLaw E \<and> streamHolds sz s os \<and>
       length os + length (contributionOctets E lookingFor (parties lps) (participants ps ! i)) \<le> unat sz \<longrightarrow>
       err = 0 \<and> streamHolds sz s1 (os @ contributionOctets E lookingFor (parties lps) (participants ps ! i))"
    "sessionWf (lps\<lparr>parties := pl\<rparr>) ps1" "sameButQuality (parties lps) pl"
    "usedFrom i ps = participants ps ! i # usedFrom (Suc i) ps1"
    "composedFrom E lookingFor i (participants ps) = composedFrom E lookingFor (Suc i) (participants ps1)"
    "contributionOctets E lookingFor pl = contributionOctets E lookingFor (parties lps)"
proof -
  let ?p = "participants ps ! i"
  have pwf: "participantsWf ps" using wf by (simp add: sessionWf_def)
  obtain j where j: "pInParty ?p = Some j" "j < length (parties lps)"
    using wf used i by (auto simp: sessionWf_def participantsHaveParty_def)
  let ?pl = "(parties lps)[j := (parties lps ! j)\<lparr>lpQuality := qualityAfter E lookingFor ?p (lpQuality (parties lps ! j))\<rparr>]"
  obtain err s1 ps1 where one: "composeParticipant E lookingFor i s ps (parties lps) = Some (err, s1, ps1, ?pl)"
    "err \<le> 0" "participantsWf ps1" "participantCapacity ps1 = participantCapacity ps"
    "participants ps1 = (participants ps)[i := participantAfter E lookingFor ?p]"
    "\<forall>sz os. outStreamLaw E \<and> streamHolds sz s os \<and>
      length os + length (contributionOctets E lookingFor (parties lps) ?p) \<le> unat sz \<longrightarrow>
      err = 0 \<and> streamHolds sz s1 (os @ contributionOctets E lookingFor (parties lps) ?p)"
    using composeParticipant_run [OF laws pwf i used j, of lookingFor s] by blast
  have wf1: "sessionWf (lps\<lparr>parties := ?pl\<rparr>) ps1" by (rule composeStep_session [OF wf i one(3,5) j(2)])
  have same: "sameButQuality (parties lps) ?pl" by (rule sameButQuality_update)
  have uf: "usedFrom i ps = ?p # usedFrom (Suc i) ps1"
    using usedFrom_step [OF i] used by (simp add: usedFrom_def one(5))
  have cf: "composedFrom E lookingFor i (participants ps) = composedFrom E lookingFor (Suc i) (participants ps1)"
    using i used by (simp add: composedFrom_step [of i] one(5))
  have contrib: "contributionOctets E lookingFor ?pl = contributionOctets E lookingFor (parties lps)"
    using j(2) by (simp add: fun_eq_iff contributionOctets_quality)
  have len: "length (participants ps1) = length (participants ps)" by (simp add: one(5))
  from that [OF one(1,2,4) len one(6) wf1 same uf cf contrib] show thesis .
qed

lemma composeFrom_run:
  assumes laws: "composeLaws E" and "sessionWf lps ps" "i + n = length (participants ps)"
  shows "\<exists>err s' found' ps' pl. composeFrom E lookingFor i n s found ps (parties lps) = Some (err, s', found', ps', pl) \<and>
    err \<le> 0 \<and> sessionWf (lps\<lparr>parties := pl\<rparr>) ps' \<and> sameButQuality (parties lps) pl \<and>
    participantCapacity ps' = participantCapacity ps \<and>
    (err = 0 \<longrightarrow> found' = found + of_nat (length (usedFrom i ps)) \<and>
       participants ps' = composedFrom E lookingFor i (participants ps)) \<and>
    (\<forall>sz os. outStreamLaw E \<and> streamHolds sz s os \<and> length os +
        length (concat (map (contributionOctets E lookingFor (parties lps)) (usedFrom i ps))) \<le> unat sz \<longrightarrow>
      err = 0 \<and> streamHolds sz s' (os @ concat (map (contributionOctets E lookingFor (parties lps)) (usedFrom i ps))))"
  using assms(2,3)
proof (induction n arbitrary: i s found ps lps)
  case 0
  then show ?case by (simp add: usedFrom_def composedFrom_def sameButQuality_refl)
next
  case (Suc n)
  let ?p = "participants ps ! i"
  have i: "i < length (participants ps)" "Suc i + n = length (participants ps)" using Suc.prems by auto
  show ?case
  proof (cases "pIsUsed ?p")
    case False
    with i Suc.IH [OF Suc.prems(1) i(2), of s found] show ?thesis
      by (simp add: usedFrom_step [of i] composedFrom_step [of i])
  next
    case used: True
    obtain err s1 ps1 pl1 where one: "composeParticipant E lookingFor i s ps (parties lps) = Some (err, s1, ps1, pl1)" "err \<le> 0"
        "participantCapacity ps1 = participantCapacity ps" "length (participants ps1) = length (participants ps)"
        "\<forall>sz os. outStreamLaw E \<and> streamHolds sz s os \<and>
           length os + length (contributionOctets E lookingFor (parties lps) ?p) \<le> unat sz \<longrightarrow>
           err = 0 \<and> streamHolds sz s1 (os @ contributionOctets E lookingFor (parties lps) ?p)"
      and wf1: "sessionWf (lps\<lparr>parties := pl1\<rparr>) ps1" and same: "sameButQuality (parties lps) pl1"
      and uf: "usedFrom i ps = ?p # usedFrom (Suc i) ps1"
      and cf: "composedFrom E lookingFor i (participants ps) = composedFrom E lookingFor (Suc i) (participants ps1)"
      and contrib: "contributionOctets E lookingFor pl1 = contributionOctets E lookingFor (parties lps)"
      by (rule composeFrom_used [OF laws Suc.prems(1) i(1) used])
    show ?thesis
    proof (cases "err < 0")
      case True
      with one(1,3,5) used i(1) wf1 same uf show ?thesis by (fastforce simp: split: if_splits)
    next
      case False
      with one(2) have err: "err = 0" by simp
      have len: "Suc i + n = length (participants ps1)" using i(2) one(4) by simp
      have upd: "parties (lps\<lparr>parties := pl1\<rparr>) = pl1" "lps\<lparr>parties := pl1, parties := x\<rparr> = lps\<lparr>parties := x\<rparr>" for x by simp_all
      obtain err' s' found' ps' pl where
        IH: "composeFrom E lookingFor (Suc i) n s1 (found + 1) ps1 pl1 = Some (err', s', found', ps', pl)"
          "err' \<le> 0" "sessionWf (lps\<lparr>parties := pl\<rparr>) ps'" "sameButQuality pl1 pl"
          "participantCapacity ps' = participantCapacity ps1"
          "err' = 0 \<longrightarrow> found' = found + 1 + of_nat (length (usedFrom (Suc i) ps1)) \<and>
             participants ps' = composedFrom E lookingFor (Suc i) (participants ps1)"
          "\<forall>sz os. outStreamLaw E \<and> streamHolds sz s1 os \<and> length os +
             length (concat (map (contributionOctets E lookingFor (parties lps)) (usedFrom (Suc i) ps1))) \<le> unat sz \<longrightarrow>
           err' = 0 \<and> streamHolds sz s' (os @ concat (map (contributionOctets E lookingFor (parties lps)) (usedFrom (Suc i) ps1)))"
        using Suc.IH [OF wf1 len, of s1 "found + 1"] unfolding upd contrib by blast
      have "composeFrom E lookingFor i (Suc n) s found ps (parties lps) = Some (err', s', found', ps', pl)"
        using i(1) used one(1) err IH(1) by simp
      moreover have "err' = 0 \<and> streamHolds sz s' (os @ concat (map (contributionOctets E lookingFor (parties lps)) (usedFrom i ps)))"
        if "outStreamLaw E" "streamHolds sz s os"
          "length os + length (concat (map (contributionOctets E lookingFor (parties lps)) (usedFrom i ps))) \<le> unat sz" for sz os
      proof -
        have "streamHolds sz s1 (os @ contributionOctets E lookingFor (parties lps) ?p)"
          using one(5) that by (simp add: uf)
        with IH(7) that show ?thesis by (force simp: uf)
      qed
      ultimately show ?thesis
        using IH(2,3,5,6) one(3) sameButQuality_trans [OF same IH(4)] uf cf by (auto simp: add.assoc)
    qed
  qed
qed

lemma length_usedFrom: "length (usedFrom 0 ps) = card (usedIds ps)"
  by (simp add: usedFrom_def usedIds_def length_filter_conv_card)

lemma composedFrom_nth:
  "i < length ps \<Longrightarrow> composedFrom E lookingFor 0 ps ! i =
     (if pIsUsed (ps ! i) then participantAfter E lookingFor (ps ! i) else ps ! i)"
  "length (composedFrom E lookingFor 0 ps) = length ps"
  by (simp_all add: composedFrom_def)

lemma usedIds_composed:
  assumes "participants ps' = composedFrom E lookingFor 0 (participants ps)"
  shows "usedIds ps' = {i \<in> usedIds ps. \<not> isLeaving (participants ps ! i)}"
  using assms by (auto simp: usedIds_def composedFrom_nth split: if_splits)

lemma noneLeaving_alt: "noneLeaving ps \<longleftrightarrow> (\<forall>i \<in> usedIds ps. \<not> isLeaving (participants ps ! i))"
  by (auto simp: noneLeaving_def usedFrom_def usedIds_def in_set_conv_nth)

lemma composed_count:
  assumes "participantsWf ps" "participantsWf ps'" "participants ps' = composedFrom E lookingFor 0 (participants ps)"
  shows "of_nat (length (usedFrom 0 ps)) = participantCount ps' \<longleftrightarrow> noneLeaving ps"
proof -
  have sub: "usedIds ps' \<subseteq> usedIds ps" using usedIds_composed [OF assms(3)] by auto
  have "card (usedIds ps) < 64"
    using assms(1) card_usedIds_le [of ps] by (simp add: participantsWf_def participantsShape_def word_less_nat_alt)
  then have "of_nat (length (usedFrom 0 ps)) = participantCount ps' \<longleftrightarrow> card (usedIds ps) = card (usedIds ps')"
    using assms(2) by (auto simp: length_usedFrom participantsWf_def participantsShape_def word_unat_eq_iff)
  also have "\<dots> \<longleftrightarrow> usedIds ps' = usedIds ps" using card_subset_eq [OF _ sub] by auto
  also have "\<dots> \<longleftrightarrow> noneLeaving ps" using usedIds_composed [OF assms(3)] by (auto simp: noneLeaving_alt)
  finally show ?thesis .
qed

text \<open>The step after which no participant is left just joined or leaving.\<close>

lemma composed_states:
  assumes "participants ps' = composedFrom E lookingFor 0 (participants ps)" "p \<in> set (usedFrom 0 ps')"
  shows "pState p \<notin> {NimbleServerParticipantStateJustJoined, NimbleServerParticipantStateLeaving}"
proof -
  obtain i where i: "i < length (participants ps)" "p = participants ps' ! i" "pIsUsed (participants ps' ! i)"
    using assms by (auto simp: usedFrom_def in_set_conv_nth composedFrom_nth)
  then have "pIsUsed (participants ps ! i)" "p = participantAfter E lookingFor (participants ps ! i)"
    "\<not> isLeaving (participants ps ! i)"
    using assms(1) by (auto simp: composedFrom_nth split: if_splits)
  then show ?thesis
    by (cases "pState (participants ps ! i)") (simp_all add: participantAfter_def Let_def isLeaving_def)
qed

lemma composeOne_run:
  assumes laws: "composeLaws E" and wf: "sessionWf lps ps" and leave: "clogMode E = ClogOff \<or> noneLeaving ps"
  shows "\<exists>r os ps' pl. composeOneAuthoritativeStep E ps (parties lps) lookingFor 1024 = Some (r, os, ps', pl) \<and>
    sessionWf (lps\<lparr>parties := pl\<rparr>) ps' \<and> sameButQuality (parties lps) pl \<and>
    participantCapacity ps' = participantCapacity ps \<and>
    (0 < r \<longrightarrow> participants ps' = composedFrom E lookingFor 0 (participants ps)) \<and>
    (outStreamLaw E \<and> 1 + length (concat (map (contributionOctets E lookingFor (parties lps)) (usedFrom 0 ps))) \<le> 1024 \<longrightarrow>
      r = int (length os) \<and> os = ucast (participantCount ps) #
        concat (map (contributionOctets E lookingFor (parties lps)) (usedFrom 0 ps)))"
proof -
  let ?s0 = "snd (fldOutStreamWriteUInt8 E (fldOutStreamInit E 1024) (ucast (participantCount ps)))"
  let ?c = "concat (map (contributionOctets E lookingFor (parties lps)) (usedFrom 0 ps))"
  have pwf: "participantsWf ps" using wf by (simp add: sessionWf_def)
  then have len: "0 + unat (participantCapacity ps) = length (participants ps)"
    by (simp add: participantsWf_def participantsShape_def)
  obtain err s1 found ps' pl where run:
    "composeFrom E lookingFor 0 (unat (participantCapacity ps)) ?s0 0 ps (parties lps) = Some (err, s1, found, ps', pl)"
    "err \<le> 0" "sessionWf (lps\<lparr>parties := pl\<rparr>) ps'" "sameButQuality (parties lps) pl"
    "participantCapacity ps' = participantCapacity ps"
    "err = 0 \<longrightarrow> found = 0 + of_nat (length (usedFrom 0 ps)) \<and>
       participants ps' = composedFrom E lookingFor 0 (participants ps)"
    "\<forall>sz os. outStreamLaw E \<and> streamHolds sz ?s0 os \<and> length os + length ?c \<le> unat sz \<longrightarrow>
      err = 0 \<and> streamHolds sz s1 (os @ ?c)"
    using composeFrom_run [OF laws wf len, of lookingFor ?s0 0] by blast
  have pwf': "participantsWf ps'" using run(3) by (simp add: sessionWf_def)
  have layout: "err = 0 \<and> sint (outPos s1) = int (length (outOctets s1)) \<and> outOctets s1 = ucast (participantCount ps) # ?c"
    if room: "outStreamLaw E" "1 + length ?c \<le> 1024"
  proof -
    have "streamHolds 1024 ?s0 [ucast (participantCount ps)]"
      using outStream_write8(2) [OF room(1), of 1024 "fldOutStreamInit E 1024" "[]"] room(1)
      by (simp add: outStreamLaw_def)
    with run(7) room have h: "err = 0" "streamHolds 1024 s1 ([ucast (participantCount ps)] @ ?c)" by fastforce+
    then have u: "unat (outPos s1) = Suc (length ?c)" by (simp add: streamHolds_def)
    have "uint (outPos s1) = int (unat (outPos s1))" by simp
    also have "\<dots> = int (Suc (length ?c))" unfolding u ..
    finally have pos: "uint (outPos s1) = int (Suc (length ?c))" .
    then have "sint (outPos s1) = int (Suc (length ?c))"
      using sint_size_small [of "outPos s1"] room(2) by simp
    with h show ?thesis by (simp add: streamHolds_def)
  qed
  show ?thesis
  proof (cases "err < 0")
    case True
    with run(1,3-5) layout show ?thesis by (auto simp: composeOneAuthoritativeStep_def Let_def)
  next
    case False
    with run(2) have err: "err = 0" by simp
    with leave run(6) composed_count [OF pwf pwf'] have "clogMode E = ClogOff \<or> found = participantCount ps'" by auto
    then have "clogAssert (clogMode E) (found = participantCount ps') = Some ()" by (auto simp: clogAssert_Some)
    with err run layout show ?thesis by (simp add: composeOneAuthoritativeStep_def Let_def)
  qed
qed

lemma maxContributionFrom_spec:
  assumes "i + n = length ps"
  shows "\<exists>m c. maxContributionFrom lookingFor ps i n m0 c0 = Some (m, c) \<and>
    (\<forall>x. x < m \<longleftrightarrow> x < m0 \<or> (\<exists>p \<in> set (filter pIsUsed (drop i ps)). x < canAdvanceSteps lookingFor p)) \<and>
    c = c0 + of_nat (length (filter (\<lambda>p. stepsAvailable lookingFor p = 0) (filter pIsUsed (drop i ps))))"
  using assms
proof (induction n arbitrary: i m0 c0)
  case 0
  then show ?case by simp
next
  case (Suc n)
  let ?p = "ps ! i"
  have i: "i < length ps" "Suc i + n = length ps" using Suc.prems by auto
  have dr: "drop i ps = ?p # drop (Suc i) ps" using i(1) by (simp add: Cons_nth_drop_Suc)
  have avail: "stepsAvailable lookingFor ?p = 0 \<longleftrightarrow>
      \<not> (stepsCount (pSteps ?p) > 0 \<and> expectedWriteId (pSteps ?p) > lookingFor)"
    by (auto simp: stepsAvailable_def word_less_nat_alt)
  show ?case
  proof (cases "pIsUsed ?p")
    case False
    with Suc.IH [OF i(2), of m0 c0] i(1) show ?thesis by (simp add: dr)
  next
    case True
    let ?a = "canAdvanceSteps lookingFor ?p"
    let ?m1 = "if ?a > m0 then ?a else m0" and ?c1 = "c0 + (if stepsAvailable lookingFor ?p = 0 then 1 else 0)"
    have run: "maxContributionFrom lookingFor ps i (Suc n) m0 c0 = maxContributionFrom lookingFor ps (Suc i) n ?m1 ?c1"
      using i(1) True avail by (auto simp: canAdvanceSteps_def Let_def)
    let ?U = "filter pIsUsed (drop (Suc i) ps)"
    obtain m c where IH: "maxContributionFrom lookingFor ps (Suc i) n ?m1 ?c1 = Some (m, c)"
      "\<forall>x. x < m \<longleftrightarrow> x < ?m1 \<or> (\<exists>p \<in> set ?U. x < canAdvanceSteps lookingFor p)"
      "c = ?c1 + of_nat (length (filter (\<lambda>p. stepsAvailable lookingFor p = 0) ?U))"
      using Suc.IH [OF i(2)] by blast
    have U: "filter pIsUsed (drop i ps) = ?p # ?U" using dr True by simp
    have "x < m \<longleftrightarrow> x < m0 \<or> (\<exists>p \<in> set (?p # ?U). x < canAdvanceSteps lookingFor p)" for x
      using IH(2) by (auto split: if_splits)
    moreover have "c = c0 + of_nat (length (filter (\<lambda>p. stepsAvailable lookingFor p = 0) (?p # ?U)))"
      using IH(3) by (cases "stepsAvailable lookingFor ?p = 0") (simp_all add: add.assoc)
    ultimately show ?thesis unfolding U run using IH(1) by blast
  qed
qed

lemma canAdvanceSteps_available:
  assumes "expectedWriteId (pSteps p) \<noteq> -1" "0 < n" "n < 2 ^ 16"
  shows "of_nat n < canAdvanceSteps lookingFor p \<longleftrightarrow> n \<le> stepsAvailable lookingFor p"
proof (cases "stepsCount (pSteps p) > 0 \<and> expectedWriteId (pSteps p) > lookingFor")
  case True
  let ?w = "expectedWriteId (pSteps p)"
  have lt: "unat lookingFor < unat ?w" using True by (simp add: word_less_nat_alt)
  have w: "unat ?w + 1 < 2 ^ 32"
    using assms(1) unsigned_less [of ?w, where 'a = nat] by (simp add: word_unat_eq_iff unsigned_minus_1_eq_mask mask_eq_exp_minus_1)
  have sub: "unat (?w - lookingFor) = unat ?w - unat lookingFor" using lt by (simp add: unat_sub word_le_nat_alt)
  then have "unat (?w - lookingFor + 1) = unat ?w - unat lookingFor + 1" using w by (subst unat_inc) simp_all
  then have "unat (canAdvanceSteps lookingFor p) = stepsAvailable lookingFor p + 1"
    using True w by (simp add: canAdvanceSteps_def stepsAvailable_def unsigned_ucast_eq take_bit_nat_eq_self)
  with assms(3) show ?thesis by (auto simp: word_less_nat_alt)
next
  case False
  then show ?thesis using assms by (auto simp: canAdvanceSteps_def stepsAvailable_def)
qed

lemma shouldCompose_run:
  assumes wf: "participantsShape ps"
    and ids: "\<forall>p \<in> set (usedFrom 0 ps). expectedWriteId (pSteps p) \<noteq> -1"
  shows "shouldComposeNewAuthoritativeStep ps lookingFor = Some (composeRule lookingFor (usedFrom 0 ps))"
proof -
  let ?U = "usedFrom 0 ps"
  have cap: "0 + unat (participantCapacity ps) = length (participants ps)" "length (participants ps) < 64"
    using wf by (auto simp: participantsShape_def word_less_nat_alt)
  obtain m c where mc: "maxPredictedStepContributionForParticipants ps lookingFor = Some (m, c)"
    "\<forall>x. x < m \<longleftrightarrow> (\<exists>p \<in> set ?U. x < canAdvanceSteps lookingFor p)"
    "c = of_nat (length (filter (\<lambda>p. stepsAvailable lookingFor p = 0) ?U))"
    using maxContributionFrom_spec [OF cap(1), of lookingFor 0 0]
    by (auto simp: maxPredictedStepContributionForParticipants_def usedFrom_def)
  have "length (filter (\<lambda>p. stepsAvailable lookingFor p = 0) ?U) < 64"
    using cap(2) le_less_trans [OF length_filter_le] by (metis drop0 length_filter_le usedFrom_def)
  then have "c = 0 \<longleftrightarrow> filter (\<lambda>p. stepsAvailable lookingFor p = 0) ?U = []"
    using mc(3) by (simp add: word_unat_eq_iff)
  then have c: "c = 0 \<longleftrightarrow> (\<forall>p \<in> set ?U. stepsAvailable lookingFor p > 0)" by (simp add: filter_empty_conv)
  have m: "of_nat n < m \<longleftrightarrow> (\<exists>p \<in> set ?U. n \<le> stepsAvailable lookingFor p)" if "0 < n" "n < 2 ^ 16" for n
    using mc(2) ids that canAdvanceSteps_available by blast
  show ?thesis
    using m [of 3] m [of 5] c by (auto simp: shouldComposeNewAuthoritativeStep_def mc(1) composeRule_def)
qed

lemma shouldAdvance_returns:
  assumes "participantsShape ps"
  shows "\<exists>b. shouldAdvanceAuthoritative E ps steps = Some b \<and> (b \<longrightarrow> stepsCount steps < NBS_WINDOW_SIZE E div 2)"
proof -
  have "0 + unat (participantCapacity ps) = length (participants ps)" using assms by (simp add: participantsShape_def)
  from maxContributionFrom_spec [OF this, of "expectedWriteId steps" 0 0] show ?thesis
    by (auto simp: shouldAdvanceAuthoritative_def shouldComposeNewAuthoritativeStep_def
        maxPredictedStepContributionForParticipants_def canAdvanceDueToDistanceFromLastState_def)
qed

lemma composeRound_run:
  assumes laws: "composeLaws E" "stepWriteLaw E" and wf: "sessionWf lps (gameParticipants game)"
    and leave: "clogMode E = ClogOff \<or> noneLeaving (gameParticipants game)"
  shows "\<exists>r game' pl. composeRound E game (parties lps) = Some (r, game', pl) \<and>
    sessionWf (lps\<lparr>parties := pl\<rparr>) (gameParticipants game') \<and> sameButQuality (parties lps) pl \<and>
    (\<forall>code. r = Some code \<longrightarrow> code < 0 \<or> code = 0 \<and> authoritativeSteps game' = authoritativeSteps game) \<and>
    (r = None \<longrightarrow> stepsCount (authoritativeSteps game') = stepsCount (authoritativeSteps game) + 1 \<and>
       expectedWriteId (authoritativeSteps game') = expectedWriteId (authoritativeSteps game) + 1 \<and>
       participants (gameParticipants game') =
         composedFrom E (expectedWriteId (authoritativeSteps game)) 0 (participants (gameParticipants game)))"
proof -
  let ?st = "authoritativeSteps game"
  obtain r os ps pl where one:
    "composeOneAuthoritativeStep E (gameParticipants game) (parties lps) (expectedWriteId ?st) 1024 = Some (r, os, ps, pl)"
    "sessionWf (lps\<lparr>parties := pl\<rparr>) ps" "sameButQuality (parties lps) pl"
    "0 < r \<longrightarrow> participants ps = composedFrom E (expectedWriteId ?st) 0 (participants (gameParticipants game))"
    using composeOne_run [OF laws(1) wf leave, of "expectedWriteId ?st"] by blast
  obtain w st where wr: "nbsStepsWrite E ?st (expectedWriteId ?st) (take (nat r) os) = (w, st)"
    by (cases "nbsStepsWrite E ?st (expectedWriteId ?st) (take (nat r) os)")
  with laws(2) have "0 \<le> w \<longrightarrow> stepsCount st = stepsCount ?st + 1 \<and> expectedWriteId st = expectedWriteId ?st + 1"
    unfolding stepWriteLaw_def by blast
  with one wr show ?thesis
    by (cases "r \<le> 0"; cases "0 \<le> w") (simp_all add: composeRound_def Let_def)
qed

lemma composeEnds_Suc:
  assumes "composeEnds E game1 (w + 1) r game'"
    and "stepsCount (authoritativeSteps game) < NBS_WINDOW_SIZE E div 2"
    and "stepsCount (authoritativeSteps game1) = stepsCount (authoritativeSteps game) + 1"
    and "expectedWriteId (authoritativeSteps game1) = expectedWriteId (authoritativeSteps game) + 1"
  shows "composeEnds E game w r game'"
proof -
  have "unat (stepsCount (authoritativeSteps game)) < unat (NBS_WINDOW_SIZE E div 2)"
    using assms(2) by (simp add: word_less_nat_alt)
  moreover from this have "unat (stepsCount (authoritativeSteps game) + 1) = unat (stepsCount (authoritativeSteps game)) + 1"
    using unsigned_less [of "NBS_WINDOW_SIZE E div 2", where 'a = nat] by (intro unat_inc) simp
  ultimately show ?thesis
    using assms(1) unfolding composeEnds_def assms(3,4)
    by (elim disjE exE) (simp, rule disjI2, rule_tac x = "Suc k" in exI, auto simp: add.assoc)
qed

lemma composeLoop_run:
  assumes laws: "composeLaws E" "stepWriteLaw E" and wf: "sessionWf lps (gameParticipants game)"
    and leave: "clogMode E = ClogOff \<or> noneLeaving (gameParticipants game)"
  shows "\<exists>r game' pl. composeLoop E w game (parties lps) = Some (r, game', pl) \<and>
    sessionWf (lps\<lparr>parties := pl\<rparr>) (gameParticipants game') \<and> sameButQuality (parties lps) pl \<and>
    composeEnds E game w r game'"
  using wf leave
proof (induction "unat (NBS_WINDOW_SIZE E div 2) - unat (stepsCount (authoritativeSteps game))"
    arbitrary: game lps w rule: less_induct)
  case less
  let ?st = "authoritativeSteps game"
  have "participantsShape (gameParticipants game)" using less.prems(1) by (simp add: sessionWf_def participantsWf_def)
  then obtain go where go: "shouldAdvanceAuthoritative E (gameParticipants game) ?st = Some go"
    "go \<longrightarrow> stepsCount ?st < NBS_WINDOW_SIZE E div 2" using shouldAdvance_returns by blast
  show ?case
  proof (cases go)
    case False
    with go less.prems(1) show ?thesis
      by (subst composeLoop.simps) (auto simp: sameButQuality_refl composeEnds_def intro!: exI [of _ 0])
  next
    case True
    with go have lt: "stepsCount ?st < NBS_WINDOW_SIZE E div 2" by simp
    obtain r game1 pl where rd: "composeRound E game (parties lps) = Some (r, game1, pl)"
      "sessionWf (lps\<lparr>parties := pl\<rparr>) (gameParticipants game1)" "sameButQuality (parties lps) pl"
      "\<forall>code. r = Some code \<longrightarrow> code < 0 \<or> code = 0 \<and> authoritativeSteps game1 = ?st"
      "r = None \<longrightarrow> stepsCount (authoritativeSteps game1) = stepsCount ?st + 1 \<and>
         expectedWriteId (authoritativeSteps game1) = expectedWriteId ?st + 1 \<and>
         participants (gameParticipants game1) = composedFrom E (expectedWriteId ?st) 0 (participants (gameParticipants game))"
      using composeRound_run [OF laws less.prems] by blast
    show ?thesis
    proof (cases r)
      case (Some code)
      with rd(4) have "composeEnds E game w code game1" by (auto simp: composeEnds_def intro: exI [of _ 0])
      with Some rd go True show ?thesis by (subst composeLoop.simps) simp
    next
      case None
      with rd(5) have nx: "stepsCount (authoritativeSteps game1) = stepsCount ?st + 1"
        "expectedWriteId (authoritativeSteps game1) = expectedWriteId ?st + 1"
        "participants (gameParticipants game1) = composedFrom E (expectedWriteId ?st) 0 (participants (gameParticipants game))"
        by auto
      have "unat (stepsCount ?st + 1) = unat (stepsCount ?st) + 1"
        using lt unsigned_less [of "NBS_WINDOW_SIZE E div 2", where 'a = nat]
        by (intro unat_inc) (simp add: word_less_nat_alt)
      then have dec: "unat (NBS_WINDOW_SIZE E div 2) - unat (stepsCount (authoritativeSteps game1)) <
          unat (NBS_WINDOW_SIZE E div 2) - unat (stepsCount ?st)"
        using lt nx(1) by (simp add: word_less_nat_alt)
      have "noneLeaving (gameParticipants game1)"
        using composed_states [OF nx(3)] by (auto simp: noneLeaving_def isLeaving_def)
      then have leave1: "clogMode E = ClogOff \<or> noneLeaving (gameParticipants game1)" ..
      obtain r' game' pl' where IH: "composeLoop E (w + 1) game1 pl = Some (r', game', pl')"
        "sessionWf (lps\<lparr>parties := pl'\<rparr>) (gameParticipants game')" "sameButQuality pl pl'"
        "composeEnds E game1 (w + 1) r' game'"
        using less.hyps [OF dec rd(2) leave1, of "w + 1"] by auto
      have "composeLoop E w game (parties lps) = Some (r', game', pl')"
        using go True None rd(1) IH(1) by (subst composeLoop.simps) simp
      with IH(2) sameButQuality_trans [OF rd(3) IH(3)] composeEnds_Suc [OF IH(4) lt nx(1,2)]
      show ?thesis by blast
    qed
  qed
qed

lemma takeCounted_counted:
  "length octs < 256 \<Longrightarrow> takeCounted (of_nat (length octs) # octs @ rest) = Some (octs, rest)"
  by (simp add: takeCounted_def)

lemma masked_all:
  "list_all (\<lambda>n. \<not> or 0x80 (of_nat n :: u8) < 0x80 \<and> and (or 0x80 (of_nat n :: u8)) 0x7F = of_nat n) [0..<128]"
  by code_simp

lemma masked_id:
  assumes "unat (x :: u8) < 128"
  shows "\<not> or 0x80 x < (0x80 :: u8)" "and (or 0x80 x) 0x7F = x" "x < 0x80"
proof -
  have "of_nat (unat x) = x" by simp
  with masked_all assms show "\<not> or 0x80 x < (0x80 :: u8)" "and (or 0x80 x) 0x7F = x"
    by (force simp: list_all_iff)+
  show "x < 0x80" using assms by (simp add: word_less_nat_alt)
qed

lemma decode_encode:
  assumes "typeOf (stepTypeOctet E t) = Some t" "unat participantId < 128" "length octs < 256"
  shows "decodeContribution typeOf (encodeContribution E t participantId partyId octs @ rest) =
    Some ((t, participantId, if t = NimbleSerializeStepTypeJoined then Some partyId else None,
      if t = NimbleSerializeStepTypeNormal \<or> t = NimbleSerializeStepTypeJoined then octs else []), rest)"
  using assms masked_id [OF assms(2)] takeCounted_counted [OF assms(3), of rest]
  by (cases t) (simp_all add: decodeContribution_def encodeContribution_def)

lemma decode_contributions:
  assumes laws: "composeLaws E" and types: "\<And>t. typeOf (stepTypeOctet E t) = Some t"
    and ids: "\<forall>p \<in> set ps. unat (pId p) < 128"
  shows "decodeContributions typeOf (length ps) (concat (map (contributionOctets E lookingFor lps) ps) @ rest) =
    Some (map (contributionOf E lookingFor lps) ps, rest)"
  using ids
proof (induction ps arbitrary: rest)
  case (Cons p ps)
  have "decodeContribution typeOf (contributionOctets E lookingFor lps p @ r) =
      Some (contributionOf E lookingFor lps p, r)" for r
    using decode_encode [of typeOf E, OF types, of "pId p" "composedOctets E lookingFor p"] Cons.prems composedOctets_bound [OF laws]
    by (simp add: contributionOctets_def contributionOf_def Let_def)
  with Cons show ?case by simp
qed simp

lemma usedFrom_ids:
  assumes "participantsWf ps" "p \<in> set (usedFrom 0 ps)"
  shows "unat (pId p) < 64"
  using assms by (fastforce simp: usedFrom_def in_set_conv_nth participantsWf_def participantsShape_def word_less_nat_alt)

text \<open>A session with one participant that just joined, for the witnesses.\<close>

lemma demoSession:
  "\<exists>(lps :: demo NimbleServerLocalParties) ps. sessionWf lps ps \<and> length (usedFrom 0 ps) = 1 \<and>
     (\<forall>p \<in> set (usedFrom 0 ps). pSteps p = \<lparr>expectedReadId = 9, expectedWriteId = 9, stepsCount = 0, stepsData = DSteps []\<rparr> \<and>
        pState p = NimbleServerParticipantStateJustJoined)"
proof -
  obtain ps :: "demo NimbleServerParticipants" where ps: "participantsWf ps" "usedIds ps = {}" "participantCapacity ps = 4"
    using demoRoster by blast
  note wf = blankParties_wf [OF ps(1,2)]
  obtain k lps' ps' i where c: "sessionWf lps' ps'" "k < length (participants ps)" "usedIds ps' = {k}"
    "participants ps' = (participants ps)[k :=
       joinedParticipant (demoEnv ClogFatal) (participants ps ! k) i 9 2 (of_nat k)]"
    using localPartiesCreate_room [OF wf(1), of "demoEnv ClogFatal" "Some 7" 2 "[]" 9] wf(2,3) ps(2,3) by auto
  have "\<forall>p \<in> set (usedFrom 0 ps'). \<exists>j. p = participants ps' ! j \<and> j \<in> usedIds ps'"
    by (auto simp: usedFrom_def usedIds_def in_set_conv_nth)
  with c(2-4) have "\<forall>p \<in> set (usedFrom 0 ps'). p = joinedParticipant (demoEnv ClogFatal) (participants ps ! k) i 9 2 (of_nat k)"
    by auto
  moreover have "pSteps (joinedParticipant (demoEnv ClogFatal) (participants ps ! k) i 9 2 (of_nat k)) =
      \<lparr>expectedReadId = 9, expectedWriteId = 9, stepsCount = 0, stepsData = DSteps []\<rparr>"
    "pState (joinedParticipant (demoEnv ClogFatal) (participants ps ! k) i 9 2 (of_nat k)) =
      NimbleServerParticipantStateJustJoined"
    by (simp_all add: joinedParticipant_def demoEnv_def demoStepsReInit_def)
  ultimately have "\<forall>p \<in> set (usedFrom 0 ps'). pSteps p = \<lparr>expectedReadId = 9, expectedWriteId = 9, stepsCount = 0, stepsData = DSteps []\<rparr> \<and>
        pState p = NimbleServerParticipantStateJustJoined" by metis
  with c(1,3) length_usedFrom [of ps'] show ?thesis by auto
qed

lemma demoSession_ready:
  "\<exists>(lps :: demo NimbleServerLocalParties) ps. sessionWf lps ps \<and> noneLeaving ps \<and>
     length (concat (map (contributionOctets (demoEnv ClogFatal) 9 (parties lps)) (usedFrom 0 ps))) = 4"
proof -
  obtain lps :: "demo NimbleServerLocalParties" and ps where s: "sessionWf lps ps" "length (usedFrom 0 ps) = 1"
    "\<forall>p \<in> set (usedFrom 0 ps). stepsCount (pSteps p) = 0 \<and> pState p = NimbleServerParticipantStateJustJoined"
    using demoSession by fastforce
  obtain p where p: "usedFrom 0 ps = [p]" using s(2) by (auto simp: length_Suc_conv)
  with s(3) have "length (concat (map (contributionOctets (demoEnv ClogFatal) 9 (parties lps)) (usedFrom 0 ps))) = 4"
    by (simp add: contributionOctets_def encodeContribution_def composedStepType_def composedOctets_def
        stepRead_def demoEnv_def demoStepsRead_def)
  moreover have "noneLeaving ps" using s(3) by (simp add: noneLeaving_def isLeaving_def)
  ultimately show ?thesis using s(1) by blast
qed

lemma demoSession_leaving:
  "\<exists>(lps :: demo NimbleServerLocalParties) ps. sessionWf lps ps \<and> \<not> noneLeaving ps \<and>
     length (concat (map (contributionOctets (demoEnv ClogFatal) 9 (parties lps)) (usedFrom 0 ps))) = 2"
proof -
  obtain lps :: "demo NimbleServerLocalParties" and ps where s: "sessionWf lps ps" "length (usedFrom 0 ps) = 1"
    using demoSession by fastforce
  then have "card (usedIds ps) = 1" by (simp add: length_usedFrom)
  then obtain k where k: "usedIds ps = {k}" by (auto simp: card_Suc_eq)
  then have kl: "k < length (participants ps)" "pIsUsed (participants ps ! k)" by (auto simp: usedIds_def)
  define p where "p = (participants ps ! k)\<lparr>pState := NimbleServerParticipantStateLeaving\<rparr>"
  define ps2 where "ps2 = ps\<lparr>participants := (participants ps)[k := p]\<rparr>"
  define lps2 where "lps2 = lps\<lparr>parties := map nimbleServerLocalPartyReset (parties lps), partiesCount := 0\<rparr>"
  have pwf: "participantsWf ps2" "usedIds ps2 = {k}"
    using participantsWf_update [of ps k p] s(1) kl k by (simp_all add: sessionWf_def ps2_def p_def)
  have none: "usedParties lps2 = {}" by (simp add: usedParties_def lps2_def nimbleServerLocalPartyReset_def)
  then have "partiesShape lps2"
    using s(1) by (auto simp: sessionWf_def partiesShape_def lps2_def nimbleServerLocalPartyReset_def)
  moreover obtain j where j: "pInParty p = Some j" "j < length (parties lps2)"
    using s(1) kl by (auto simp: sessionWf_def participantsHaveParty_def p_def lps2_def)
  then have "participantsHaveParty (length (parties lps2)) (participants ps2)"
    using s(1) participantsHaveParty_update [of "length (parties lps)" "participants ps" p j k]
    by (simp add: sessionWf_def ps2_def lps2_def)
  moreover have "partiesRefs (length (participants ps2)) (parties lps2)"
    by (simp add: partiesRefs_def refsValid_def lps2_def nimbleServerLocalPartyReset_def)
  ultimately have wf: "sessionWf lps2 ps2" using pwf none by (simp add: sessionWf_def partiesOwn_def)
  have kp: "participants ps2 ! k = p" using kl(1) by (simp add: ps2_def)
  have "\<forall>q \<in> set (usedFrom 0 ps2). \<exists>i \<in> usedIds ps2. q = participants ps2 ! i"
    by (auto simp: usedFrom_def usedIds_def in_set_conv_nth)
  then have "\<forall>q \<in> set (usedFrom 0 ps2). q = p" using pwf(2) kp by auto
  moreover have "length (usedFrom 0 ps2) = 1" using pwf(2) by (simp add: length_usedFrom)
  ultimately have u: "usedFrom 0 ps2 = [p]" by (cases "usedFrom 0 ps2") auto
  then have "\<not> noneLeaving ps2" by (simp add: noneLeaving_def isLeaving_def p_def)
  moreover have "length (concat (map (contributionOctets (demoEnv ClogFatal) 9 (parties lps2)) (usedFrom 0 ps2))) = 2"
    by (simp add: u contributionOctets_def encodeContribution_def composedStepType_def p_def)
  ultimately show ?thesis using wf by blast
qed

lemma demo_composeLaws: "composeLaws (demoEnv c)"
  by (simp add: composeLaws_def demo_laws)

lemma demoStepTypeOf_octet: "demoStepTypeOf (demoStepTypeOctet t) = Some t"
  by (cases t) simp_all

section \<open>Properties\<close>

text \<open>
  C15. When to compose. The scan over the participants answers exactly the rule: a new authoritative
  step is due when every participant in use has delivered the step looked for and some participant
  has delivered at least three steps from it on, or when some participant has delivered at least five.
\<close>

theorem shouldCompose_follows_rule:
  assumes "participantsWf ps" "\<forall>p \<in> set (usedFrom 0 ps). expectedWriteId (pSteps p) \<noteq> -1"
  shows "shouldComposeNewAuthoritativeStep ps lookingFor = Some (
     (\<forall>p \<in> set (usedFrom 0 ps). stepsAvailable lookingFor p \<ge> 1) \<and>
     (\<exists>p \<in> set (usedFrom 0 ps). stepsAvailable lookingFor p \<ge> 3) \<or>
     (\<exists>p \<in> set (usedFrom 0 ps). stepsAvailable lookingFor p \<ge> 5))"
  using shouldCompose_run [of ps lookingFor] assms by (simp add: participantsWf_def composeRule_def Suc_le_eq)

theorem shouldCompose_follows_rule_witness:
  "\<exists>ps :: demo NimbleServerParticipants. participantsWf ps \<and> length (usedFrom 0 ps) = 1 \<and>
     shouldComposeNewAuthoritativeStep ps 9 = Some False"
proof -
  obtain lps and ps :: "demo NimbleServerParticipants" where s: "sessionWf lps ps" "length (usedFrom 0 ps) = 1"
    "\<forall>p \<in> set (usedFrom 0 ps). expectedWriteId (pSteps p) = 9"
    using demoSession by fastforce
  then have wf: "participantsWf ps" by (simp add: sessionWf_def)
  have "\<forall>p \<in> set (usedFrom 0 ps). expectedWriteId (pSteps p) \<noteq> -1 \<and> stepsAvailable 9 p = 0"
    using s(3) by (simp add: stepsAvailable_def)
  with shouldCompose_follows_rule [OF wf, of 9] wf s(2) show ?thesis by auto
qed

text \<open>
  C13. The octets of a composed step. When they fit the buffer, the composed step is the number of
  participants followed, in slot order, by one contribution per participant in use: its id (with the
  mask bit and the type when it is not a plain step), its party if it just joined, and its octets with
  their count. The answer is the number of octets.
\<close>

theorem composedStep_layout:
  assumes "composeLaws E" "outStreamLaw E" "sessionWf lps ps" "clogMode E = ClogOff \<or> noneLeaving ps"
    and "1 + length (concat (map (contributionOctets E lookingFor (parties lps)) (usedFrom 0 ps))) \<le> 1024"
  shows "\<exists>ps' pl. composeOneAuthoritativeStep E ps (parties lps) lookingFor 1024 =
    Some (1 + int (length (concat (map (contributionOctets E lookingFor (parties lps)) (usedFrom 0 ps)))),
      ucast (participantCount ps) # concat (map (contributionOctets E lookingFor (parties lps)) (usedFrom 0 ps)),
      ps', pl)"
proof -
  let ?c = "concat (map (contributionOctets E lookingFor (parties lps)) (usedFrom 0 ps))"
  from composeOne_run [OF assms(1,3,4), of lookingFor] assms(2,5) obtain r os ps' pl where
    "composeOneAuthoritativeStep E ps (parties lps) lookingFor 1024 = Some (r, os, ps', pl)"
    "r = int (length os)" "os = ucast (participantCount ps) # ?c" by blast
  then show ?thesis by (intro exI [of _ ps'] exI [of _ pl]) simp
qed

theorem composedStep_layout_witness:
  "\<exists>(lps :: demo NimbleServerLocalParties) ps os ps' pl. sessionWf lps ps \<and>
     composeOneAuthoritativeStep (demoEnv ClogFatal) ps (parties lps) 9 1024 = Some (5, os, ps', pl)"
proof -
  obtain lps :: "demo NimbleServerLocalParties" and ps where s: "sessionWf lps ps" "noneLeaving ps"
    "length (concat (map (contributionOctets (demoEnv ClogFatal) 9 (parties lps)) (usedFrom 0 ps))) = 4"
    using demoSession_ready by blast
  then obtain os ps' pl where
    "composeOneAuthoritativeStep (demoEnv ClogFatal) ps (parties lps) 9 1024 = Some (5, os, ps', pl)"
    using composedStep_layout [OF demo_composeLaws demo_outStreamLaw s(1), of ClogFatal 9] by auto
  with s(1) show ?thesis by blast
qed





text \<open>
  C16. What a composed step does to the participants: it removes exactly those that are leaving, and
  afterwards no participant in use is just joined or leaving, so a join is announced in one
  authoritative step and a leave in one.
\<close>

theorem composedStep_settles_participants:
  assumes "composeLaws E" "sessionWf lps ps" "clogMode E = ClogOff \<or> noneLeaving ps"
    and "composeOneAuthoritativeStep E ps (parties lps) lookingFor 1024 = Some (r, os, ps', pl)" "0 < r"
  shows "sessionWf (lps\<lparr>parties := pl\<rparr>) ps' \<and>
    usedIds ps' = {i \<in> usedIds ps. \<not> isLeaving (participants ps ! i)} \<and>
    (\<forall>p \<in> set (usedFrom 0 ps'). pState p \<noteq> NimbleServerParticipantStateJustJoined \<and>
       pState p \<noteq> NimbleServerParticipantStateLeaving)"
proof -
  have "sessionWf (lps\<lparr>parties := pl\<rparr>) ps'" "participants ps' = composedFrom E lookingFor 0 (participants ps)"
    using composeOne_run [OF assms(1-3), of lookingFor] assms(4,5) by auto
  with usedIds_composed composed_states show ?thesis by fastforce
qed

theorem composedStep_settles_participants_witness:
  "\<exists>(lps :: demo NimbleServerLocalParties) ps r os ps' pl. sessionWf lps ps \<and>
     composeOneAuthoritativeStep (demoEnv ClogFatal) ps (parties lps) 9 1024 = Some (r, os, ps', pl) \<and>
     usedIds ps' = usedIds ps"
proof -
  let ?E = "demoEnv ClogFatal"
  obtain lps :: "demo NimbleServerLocalParties" and ps where s: "sessionWf lps ps" "noneLeaving ps"
    "length (concat (map (contributionOctets ?E 9 (parties lps)) (usedFrom 0 ps))) = 4"
    using demoSession_ready by blast
  obtain r os ps' pl where one: "composeOneAuthoritativeStep ?E ps (parties lps) 9 1024 = Some (r, os, ps', pl)"
    "r = int (length os)" "os \<noteq> []"
    using composeOne_run [OF demo_composeLaws s(1), of ClogFatal 9] s(2,3) demo_outStreamLaw [of ClogFatal] by auto
  have "usedIds ps' = {i \<in> usedIds ps. \<not> isLeaving (participants ps ! i)}"
    using composedStep_settles_participants [OF demo_composeLaws s(1) _ one(1)] s(2) one(2,3) by simp
  then have "usedIds ps' = usedIds ps" using s(2) by (auto simp: noneLeaving_alt)
  with s(1) one(1) show ?thesis by blast
qed

text \<open>
  C38. In a build where failed assertions stop the process, composing a step while some participant
  is leaving never completes: the leaving participant is counted as found and then removed, so the
  count at the end differs from the number of participants.
\<close>

theorem composedStep_asserts_on_leaving:
  assumes "composeLaws E" "outStreamLaw E" "sessionWf lps ps" "clogMode E = ClogFatal" "\<not> noneLeaving ps"
    and "1 + length (concat (map (contributionOctets E lookingFor (parties lps)) (usedFrom 0 ps))) \<le> 1024"
  shows "composeOneAuthoritativeStep E ps (parties lps) lookingFor 1024 = None"
proof -
  let ?s0 = "snd (fldOutStreamWriteUInt8 E (fldOutStreamInit E 1024) (ucast (participantCount ps)))"
  let ?c = "concat (map (contributionOctets E lookingFor (parties lps)) (usedFrom 0 ps))"
  have pwf: "participantsWf ps" using assms(3) by (simp add: sessionWf_def)
  then have len: "0 + unat (participantCapacity ps) = length (participants ps)"
    by (simp add: participantsWf_def participantsShape_def)
  have "streamHolds 1024 ?s0 [ucast (participantCount ps)]"
    using outStream_write8(2) [OF assms(2), of 1024 "fldOutStreamInit E 1024" "[]"] assms(2)
    by (simp add: outStreamLaw_def)
  with assms(2,6) composeFrom_run [OF assms(1,3) len, of lookingFor ?s0 0] obtain s1 found ps' pl where run:
    "composeFrom E lookingFor 0 (unat (participantCapacity ps)) ?s0 0 ps (parties lps) = Some (0, s1, found, ps', pl)"
    "sessionWf (lps\<lparr>parties := pl\<rparr>) ps'" "found = of_nat (length (usedFrom 0 ps))"
    "participants ps' = composedFrom E lookingFor 0 (participants ps)"
    by fastforce
  have "participantsWf ps'" using run(2) by (simp add: sessionWf_def)
  with composed_count [OF pwf _ run(4)] assms(5) run(3) have "found \<noteq> participantCount ps'" by simp
  with run(1) assms(4) show ?thesis by (simp add: composeOneAuthoritativeStep_def Let_def)
qed

theorem composedStep_asserts_on_leaving_witness:
  "\<exists>(lps :: demo NimbleServerLocalParties) ps. sessionWf lps ps \<and>
     composeOneAuthoritativeStep (demoEnv ClogFatal) ps (parties lps) 9 1024 = None"
proof -
  obtain lps :: "demo NimbleServerLocalParties" and ps where s: "sessionWf lps ps" "\<not> noneLeaving ps"
    "length (concat (map (contributionOctets (demoEnv ClogFatal) 9 (parties lps)) (usedFrom 0 ps))) = 2"
    using demoSession_leaving by blast
  have "clogMode (demoEnv ClogFatal) = ClogFatal" by (simp add: demoEnv_def)
  with composedStep_asserts_on_leaving [OF demo_composeLaws demo_outStreamLaw s(1) this s(2), of 9] s(1,3)
  have "composeOneAuthoritativeStep (demoEnv ClogFatal) ps (parties lps) 9 1024 = None" by simp
  with s(1) show ?thesis by blast
qed

end
