(* ===== verification/ReqStep.thy ===== *)
theory ReqStep
  imports Composition
begin

text \<open>
  The handler of a game step request: reading a client's predicted steps
  (\<open>src/src/lib/incoming_predicted_steps.c\<close>), composing, and answering with ranges of
  authoritative steps (\<open>send_authoritative_steps.c\<close>, \<open>req_step.c\<close>). The handler changes the game,
  the parties, the client's transport connection and a counter of the server; these are arguments.
\<close>

section \<open>Incoming predicted steps\<close>

definition NimbleServerErrSerialize :: int where
  "NimbleServerErrSerialize = -41"

definition NimbleServerErrDatagramFromDisconnectedConnection :: int where
  "NimbleServerErrDatagramFromDisconnectedConnection = -42"

text \<open>The output parameters are \<open>None\<close> until they are assigned.\<close>

definition nimbleServerHandleIncomingSteps ::
  "'x Env \<Rightarrow> 'x NimbleServerGame \<Rightarrow> 'x FldInStream \<Rightarrow> 'x NimbleServerTransportConnection \<Rightarrow>
   'x NimbleServerLocalParty list \<Rightarrow>
   (int \<times> (StepId \<times> u64) option \<times> 'x NimbleServerGame \<times> 'x NimbleServerLocalParty list \<times> 'x FldInStream) option" where
  "nimbleServerHandleIncomingSteps E foundGame inStream transportConnection lps =
     (case tcAssignedParty transportConnection of
        None \<Rightarrow> Some (NimbleServerErrSerialize, None, foundGame, lps, inStream)
      | Some i \<Rightarrow> do {
          party \<leftarrow> readAt lps i;
          if lpState party = NimbleServerLocalPartyStateDissolved
          then Some (NimbleServerErrDatagramFromDisconnectedConnection, None, foundGame,
                 lps[i := party\<lparr>lpWarningCount := lpWarningCount party + 1\<rparr>], inStream)
          else
            let (errorCode, clientWaitingForStepId, receiveMask, inStream1) =
              nbsPendingStepsInSerializeHeader E inStream
            in if errorCode < 0 then Some (errorCode, None, foundGame, lps, inStream1)
            else do {
              (r, party1, ps, inStream2) \<leftarrow> nimbleServerLocalPartyDeserializePredictedSteps E party
                (participants (gameParticipants foundGame)) inStream1;
              Some (r, Some (clientWaitingForStepId, receiveMask),
                foundGame\<lparr>gameParticipants := (gameParticipants foundGame)\<lparr>participants := ps\<rparr>\<rparr>,
                lps[i := party1], inStream2)
            }
        })"

section \<open>Sending authoritative steps\<close>

definition MAX_RANGES_COUNT :: nat where
  "MAX_RANGES_COUNT = 3"

text \<open>
  The ranges to send: what is pending by the receive mask, then the continuation from the step the
  client waits for. The array has \<open>MAX_RANGES_COUNT + 1\<close> places. A negative number of pending ranges is
  returned as \<open>Inl\<close>.
\<close>

definition collectStepRanges ::
  "'x Env \<Rightarrow> 'x NbsSteps \<Rightarrow> StepId \<Rightarrow> u64 \<Rightarrow> (int + NbsPendingRange list) option" where
  "collectStepRanges E steps clientWaitingForStepId receiveMask =
     (let (pendingRangeCount, ranges) = nbsPendingStepsRanges E clientWaitingForStepId
            (expectedWriteId steps) receiveMask (of_nat MAX_RANGES_COUNT) 8
      in if pendingRangeCount < 0 then Some (Inl pendingRangeCount)
         else if expectedWriteId steps > clientWaitingForStepId then do {
           let availableCount = (ucast (expectedWriteId steps - clientWaitingForStepId) :: size_t);
           let availableCount1 = (if availableCount > 20 then 20 else availableCount);
           if nat pendingRangeCount < MAX_RANGES_COUNT + 1
           then Some (Inr (take (nat pendingRangeCount) ranges @
                  [\<lparr>startId = clientWaitingForStepId, rangeCount = availableCount1\<rparr>]))
           else None
         } else Some (Inr (take (nat pendingRangeCount) ranges)))"

text \<open>The tail of the function: the header, then the ranges.\<close>

definition serializeStepRanges ::
  "'x Env \<Rightarrow> 'x FldOutStream \<Rightarrow> 'x NbsSteps \<Rightarrow> StepId \<Rightarrow> size_t \<Rightarrow> int \<Rightarrow> NbsPendingRange list \<Rightarrow> int \<times> 'x FldOutStream" where
  "serializeStepRanges E outStream steps lastReceivedStepFromClient bufferDelta authoritativeBufferDelta ranges =
     (let (serializeErr, s1) = nimbleSerializeServerOutStepHeader E outStream lastReceivedStepFromClient bufferDelta
            (int8_of_int authoritativeBufferDelta)
      in if serializeErr < 0 then (serializeErr, s1) else nbsPendingStepsSerializeOutRanges E s1 steps ranges)"

text \<open>What the header tells the client about its party; zeros without an assigned party.\<close>

definition partyStepStatus ::
  "'x NbsSteps \<Rightarrow> nat option \<Rightarrow> 'x NimbleServerLocalParty list \<Rightarrow> (StepId \<times> size_t \<times> int) option" where
  "partyStepStatus steps assignedParty lps = (case assignedParty of
       None \<Rightarrow> Some (0, 0, 0)
     | Some i \<Rightarrow> do {
         party \<leftarrow> readAt lps i;
         Some (lpHighestReceivedStepId party, lpStepsInBufferCount party,
               int_of_step (lpHighestReceivedStepId party) - int_of_step (expectedWriteId steps))
       })"

text \<open>
  The buffer delta is computed in \<open>int\<close> and cut to \<open>int8_t\<close>. When the client waits for a step that
  is no longer kept, the header holds zeros and no range is sent.
\<close>

definition nimbleServerSendStepRanges ::
  "'x Env \<Rightarrow> 'x FldOutStream \<Rightarrow> 'x NimbleServerTransportConnection \<Rightarrow> 'x NimbleServerGame \<Rightarrow>
   'x NimbleServerLocalParty list \<Rightarrow> StepId \<Rightarrow> u64 \<Rightarrow>
   (int \<times> 'x FldOutStream \<times> 'x NimbleServerTransportConnection) option" where
  "nimbleServerSendStepRanges E outStream transportConnection foundGame lps clientWaitingForStepId receiveMask = do {
     let steps = authoritativeSteps foundGame;
     if clientWaitingForStepId < expectedReadId steps then do {
       let (r, s1) = serializeStepRanges E outStream steps 0 0 0 [];
       Some (r, s1, transportConnection)
     } else do {
       collected \<leftarrow> collectStepRanges E steps clientWaitingForStepId receiveMask;
       case collected of
         Inl pendingRangeCount \<Rightarrow> Some (pendingRangeCount, outStream, transportConnection)
       | Inr ranges \<Rightarrow> do {
           let tc1 = transportConnection\<lparr>tcNoRangesToSendCounter :=
             (if ranges = [] then tcNoRangesToSendCounter transportConnection + 1 else 0)\<rparr>;
           (lastReceived, bufferDelta, authoritativeBufferDelta) \<leftarrow>
             partyStepStatus steps (tcAssignedParty transportConnection) lps;
           let (r, s1) = serializeStepRanges E outStream steps lastReceived bufferDelta authoritativeBufferDelta ranges;
           Some (r, s1, tc1)
         }
     }
   }"

section \<open>The handler\<close>

definition discardAuthoritativeStepsIfBufferGettingFull ::
  "'x Env \<Rightarrow> 'x NimbleServerGame \<Rightarrow> int \<times> 'x NimbleServerGame" where
  "discardAuthoritativeStepsIfBufferGettingFull E foundGame =
     (let authoritativeStepCount = stepsCount (authoritativeSteps foundGame);
          maxCapacity = NBS_WINDOW_SIZE E div 3
      in if authoritativeStepCount > maxCapacity then
           (let (err, steps) = nbsStepsDiscardCount E (authoritativeSteps foundGame) (authoritativeStepCount - maxCapacity);
                game1 = foundGame\<lparr>authoritativeSteps := steps\<rparr>
            in if err < 0 then (err, game1) else (0, game1))
         else (0, foundGame))"

definition readIncomingStepsAndCreateAuthoritativeSteps ::
  "'x Env \<Rightarrow> 'x NimbleServerGame \<Rightarrow> 'x FldInStream \<Rightarrow> 'x NimbleServerTransportConnection \<Rightarrow>
   'x NimbleServerLocalParty list \<Rightarrow> 'x \<Rightarrow>
   (int \<times> (StepId \<times> u64) option \<times> 'x NimbleServerGame \<times> 'x NimbleServerLocalParty list \<times> 'x \<times> 'x FldInStream) option" where
  "readIncomingStepsAndCreateAuthoritativeSteps E foundGame inStream transportConnection lps stat =
     (let (discardErr, game1) = discardAuthoritativeStepsIfBufferGettingFull E foundGame
      in if discardErr < 0 then Some (discardErr, None, game1, lps, stat, inStream)
         else do {
           (receivedCount, out, game2, lps1, inStream1) \<leftarrow>
             nimbleServerHandleIncomingSteps E game1 inStream transportConnection lps;
           if receivedCount < 0 then Some (receivedCount, out, game2, lps1, stat, inStream1)
           else if debugIsFrozen game2 then Some (0, out, game2, lps1, stat, inStream1)
           else do {
             (advanceCount, game3, lps2) \<leftarrow> nimbleServerComposeAuthoritativeSteps E game2 lps1;
             if advanceCount < 0 then Some (advanceCount, out, game3, lps2, stat, inStream1)
             else Some (advanceCount, out, game3, lps2, statsIntPerSecondAdd E stat advanceCount, inStream1)
           }
         })"

definition nimbleServerReqGameStep ::
  "'x Env \<Rightarrow> 'x NimbleServerGame \<Rightarrow> 'x NimbleServerTransportConnection \<Rightarrow> 'x NimbleServerLocalParty list \<Rightarrow> 'x \<Rightarrow>
   'x FldInStream \<Rightarrow> 'x FldOutStream \<Rightarrow>
   (int \<times> 'x NimbleServerGame \<times> 'x NimbleServerTransportConnection \<times> 'x NimbleServerLocalParty list \<times> 'x \<times>
    'x FldInStream \<times> 'x FldOutStream) option" where
  "nimbleServerReqGameStep E foundGame transportConnection lps stat inStream outStream = do {
     (errorCode, out, game1, lps1, stat1, inStream1) \<leftarrow>
       readIncomingStepsAndCreateAuthoritativeSteps E foundGame inStream transportConnection lps stat;
     if errorCode < 0 then Some (errorCode, game1, transportConnection, lps1, stat1, inStream1, outStream)
     else do {
       (clientWaitingForStepId, receiveMask) \<leftarrow> out;
       (tc1, lps2) \<leftarrow> nimbleServerTransportConnectionUpdateStats E transportConnection lps1 game1 clientWaitingForStepId;
       (r, outStream1, tc2) \<leftarrow> nimbleServerSendStepRanges E outStream tc1 game1 lps2 clientWaitingForStepId receiveMask;
       Some (r, game1, tc2, lps2, stat1, inStream1, outStream1)
     }
   }"

section \<open>Specification\<close>

text \<open>
  \<open>pendingRangesLaw\<close>: the library fills at most as many ranges as it is allowed and answers their
  number. \<open>stepDiscardLaw\<close>: discarding no more steps than there are removes exactly those.
\<close>

definition pendingRangesLaw :: "'x Env \<Rightarrow> bool" where
  "pendingRangesLaw E \<longleftrightarrow> (\<forall>a b m n k r rs. nbsPendingStepsRanges E a b m n k = (r, rs) \<and> 0 \<le> r \<longrightarrow>
     r = int (length rs) \<and> length rs \<le> unat n)"

definition stepDiscardLaw :: "'x Env \<Rightarrow> bool" where
  "stepDiscardLaw E \<longleftrightarrow> (\<forall>s n. n \<le> stepsCount s \<longrightarrow>
     (\<exists>r s'. nbsStepsDiscardCount E s n = (r, s') \<and> 0 \<le> r \<and> stepsCount s' = stepsCount s - n))"

definition stepLaws :: "'x Env \<Rightarrow> bool" where
  "stepLaws E \<longleftrightarrow> composeLaws E \<and> stepWriteLaw E \<and> stepDiscardLaw E \<and> pendingRangesLaw E"

text \<open>The party a connection serves is a place of the array of parties.\<close>

definition servesParty :: "'x NimbleServerLocalParties \<Rightarrow> 'x NimbleServerTransportConnection \<Rightarrow> bool" where
  "servesParty lps tc \<longleftrightarrow> (\<forall>i. tcAssignedParty tc = Some i \<longrightarrow> i < length (parties lps))"

text \<open>A concrete connection and a concrete game around given participants.\<close>

definition demoConnection :: "nat option \<Rightarrow> demo NimbleServerTransportConnection" where
  "demoConnection party =
     \<lparr>tcId = 0, tcTransportConnectionId = 0, tcTransportIndex = 0, tcConnectedFromConnectRequestId = 0, tcSecret = 0,
      tcAssignedParty = party,
      tcOrderedDatagramInLogic = \<lparr>hasReceivedInitialDatagram = False, inLogicData = DNone\<rparr>,
      tcOrderedDatagramOutLogic = DNone, tcBlobStreamOut = DNone,
      tcBlobStreamLogicOut = \<lparr>transferId = 0, blobLogicData = DNone\<rparr>, tcNextBlobStreamOutChannel = 127,
      tcBlobStreamOutClientRequestId = 0,
      tcStepsBehindStats = \<lparr>statsAvg = 0, statsAvgIsSet = False, statsData = DNone\<rparr>,
      tcDebugCounter = 0, tcIsUsed = False, tcUseDebugStreams = False, tcNoRangesToSendCounter = 0,
      tcPhase = NbTransportConnectionPhaseIdle,
      tcGameState = \<lparr>gsState = [], gsOctetCount = 0, gsCapacity = 0, gsStepId = 0\<rparr>\<rparr>"

definition demoGame :: "demo NimbleServerParticipants \<Rightarrow> demo NimbleServerGame" where
  "demoGame ps =
     \<lparr>authoritativeSteps = \<lparr>expectedReadId = 9, expectedWriteId = 9, stepsCount = 0, stepsData = DSteps []\<rparr>,
      gameParticipants = ps, debugIsFrozen = False\<rparr>"

section \<open>Lemmas\<close>

lemma participantsWf_same:
  assumes "participantsWf ps" "length qs = length (participants ps)"
    "\<forall>k < length qs. pIsUsed (qs ! k) = pIsUsed (participants ps ! k) \<and> pId (qs ! k) = pId (participants ps ! k)"
  shows "participantsWf (ps\<lparr>participants := qs\<rparr>)" "usedIds (ps\<lparr>participants := qs\<rparr>) = usedIds ps"
proof -
  show used: "usedIds (ps\<lparr>participants := qs\<rparr>) = usedIds ps" using assms(2,3) by (auto simp: usedIds_def)
  show "participantsWf (ps\<lparr>participants := qs\<rparr>)"
    using assms used by (simp add: participantsWf_def participantsShape_def)
qed

lemma onlyStepsChanged_fields:
  assumes "onlyStepsChanged K ps qs" "k < length ps"
  shows "pIsUsed (qs ! k) = pIsUsed (ps ! k)" "pId (qs ! k) = pId (ps ! k)" "pInParty (qs ! k) = pInParty (ps ! k)"
    "pState (qs ! k) = pState (ps ! k)"
  using assms unfolding onlyStepsChanged_def by force+

lemma sessionWf_steps:
  assumes wf: "sessionWf lps ps" and st: "onlyStepsChanged K (participants ps) qs"
  shows "sessionWf lps (ps\<lparr>participants := qs\<rparr>)" "noneLeaving (ps\<lparr>participants := qs\<rparr>) = noneLeaving ps"
proof -
  have len: "length qs = length (participants ps)" using st by (simp add: onlyStepsChanged_def)
  note f = onlyStepsChanged_fields [OF st]
  have pwf: "participantsWf (ps\<lparr>participants := qs\<rparr>)" "usedIds (ps\<lparr>participants := qs\<rparr>) = usedIds ps"
    using participantsWf_same [of ps qs] wf len f by (simp_all add: sessionWf_def)
  have "partiesOwn lps qs"
    unfolding partiesOwn_def
  proof
    fix i
    assume "i \<in> usedParties lps"
    then have "partyOwns (participants ps) i (parties lps ! i)" using wf by (simp add: sessionWf_def partiesOwn_def)
    then show "partyOwns qs i (parties lps ! i)"
      using f len refIndices_in_range by (auto simp: partyOwns_def)
  qed
  moreover have "participantsHaveParty (length (parties lps)) qs"
    using wf f len by (simp add: sessionWf_def participantsHaveParty_def all_set_conv_all_nth)
  ultimately show "sessionWf lps (ps\<lparr>participants := qs\<rparr>)" using wf pwf(1) len by (simp add: sessionWf_def)
  show "noneLeaving (ps\<lparr>participants := qs\<rparr>) = noneLeaving ps"
    using pwf(2) f len by (auto simp: noneLeaving_alt isLeaving_def usedIds_def)
qed

lemma sessionWf_party:
  assumes wf: "sessionWf lps ps" and i: "i < length (parties lps)"
    and p: "lpIsUsed p = lpIsUsed (parties lps ! i)" "lpReferences p = lpReferences (parties lps ! i)"
  shows "sessionWf (lps\<lparr>parties := (parties lps)[i := p]\<rparr>) ps"
proof -
  have shape: "partiesShape lps" and rf: "partiesRefs (length (participants ps)) (parties lps)"
    using wf by (auto simp: sessionWf_def)
  have "participantReferences (lpReferences p) \<noteq> []" "refsValid (length (participants ps)) (lpReferences p)"
    using shape rf i p(2) by (auto simp: partiesShape_def partiesRefs_def)
  note upd = partiesShape_update [OF shape i p(1) this(1)] and rf' = partiesRefs_update [OF rf this(2)]
  have "partiesOwn (lps\<lparr>parties := (parties lps)[i := p]\<rparr>) (participants ps)"
    unfolding partiesOwn_def upd(2)
  proof
    fix m
    assume "m \<in> usedParties lps"
    then have "partyOwns (participants ps) m (parties lps ! m)" using wf by (simp add: sessionWf_def partiesOwn_def)
    then show "partyOwns (participants ps) m (parties (lps\<lparr>parties := (parties lps)[i := p]\<rparr>) ! m)"
      using i p(2) by (cases "m = i") (simp_all add: partyOwns_def)
  qed
  with wf upd(1) rf' show ?thesis by (simp add: sessionWf_def)
qed

lemma links_update: "f p = f (xs ! i) \<Longrightarrow> map f (xs[i := p]) = map f xs"
  by (metis list_update_id map_update)

lemma handleIncoming_run:
  assumes wf: "sessionWf lps (gameParticipants game)" and serves: "servesParty lps tc"
  shows "\<exists>r out game' pl s'. nimbleServerHandleIncomingSteps E game s tc (parties lps) = Some (r, out, game', pl, s') \<and>
    sessionWf (lps\<lparr>parties := pl\<rparr>) (gameParticipants game') \<and> map lpTransportConnection pl = map lpTransportConnection (parties lps) \<and>
    noneLeaving (gameParticipants game') = noneLeaving (gameParticipants game) \<and>
    authoritativeSteps game' = authoritativeSteps game \<and> debugIsFrozen game' = debugIsFrozen game \<and>
    (0 \<le> r \<longrightarrow> out \<noteq> None)"
proof (cases "tcAssignedParty tc")
  case None
  with wf show ?thesis by (simp add: nimbleServerHandleIncomingSteps_def NimbleServerErrSerialize_def)
next
  case (Some i)
  let ?p = "parties lps ! i" and ?ps = "participants (gameParticipants game)"
  have i: "i < length (parties lps)" using serves Some by (simp add: servesParty_def)
  show ?thesis
  proof (cases "lpState ?p = NimbleServerLocalPartyStateDissolved")
    case True
    with Some i sessionWf_party [OF wf i, of "?p\<lparr>lpWarningCount := lpWarningCount ?p + 1\<rparr>"] show ?thesis
      by (simp add: nimbleServerHandleIncomingSteps_def NimbleServerErrDatagramFromDisconnectedConnection_def links_update)
  next
    case False
    obtain e w m s1 where hd: "nbsPendingStepsInSerializeHeader E s = (e, w, m, s1)"
      by (cases "nbsPendingStepsInSerializeHeader E s")
    have valid: "refsValid (length ?ps) (lpReferences ?p)" using wf i by (auto simp: sessionWf_def partiesRefs_def)
    obtain r p1 qs s2 where ds:
      "nimbleServerLocalPartyDeserializePredictedSteps E ?p ?ps s1 = Some (r, p1, qs, s2)"
      "onlyStepsChanged (refIndices (lpReferences ?p)) ?ps qs" "partyStepsNoted ?p p1"
      using partyReadParticipants_confined [OF valid, of E "unat (fst (snd (fldInStreamReadUInt8 E s1)))"
        "snd (snd (fldInStreamReadUInt8 E s1))"]
      by (auto simp: nimbleServerLocalPartyDeserializePredictedSteps_def split_beta)
    have p1: "lpIsUsed p1 = lpIsUsed ?p" "lpReferences p1 = lpReferences ?p"
      and link: "lpTransportConnection p1 = lpTransportConnection ?p"
      using ds(3) by (auto simp: partyStepsNoted_def)
    note st = sessionWf_steps [OF wf ds(2)]
    from sessionWf_party [OF st(1) i p1] st(2) Some i False hd ds(1) wf show ?thesis
      by (cases "e < 0") (simp_all add: nimbleServerHandleIncomingSteps_def links_update [OF link])
  qed
qed

lemma discard_run:
  assumes "stepDiscardLaw E"
  shows "\<exists>game'. discardAuthoritativeStepsIfBufferGettingFull E game = (0, game') \<and>
    stepsCount (authoritativeSteps game') = min (stepsCount (authoritativeSteps game)) (NBS_WINDOW_SIZE E div 3) \<and>
    gameParticipants game' = gameParticipants game \<and> debugIsFrozen game' = debugIsFrozen game"
proof (cases "stepsCount (authoritativeSteps game) > NBS_WINDOW_SIZE E div 3")
  case True
  let ?n = "stepsCount (authoritativeSteps game) - NBS_WINDOW_SIZE E div 3"
  have "?n \<le> stepsCount (authoritativeSteps game)" using True by (simp add: word_sub_le less_imp_le)
  with assms obtain r st where d: "nbsStepsDiscardCount E (authoritativeSteps game) ?n = (r, st)" "0 \<le> r"
    "stepsCount st = stepsCount (authoritativeSteps game) - ?n"
    unfolding stepDiscardLaw_def by blast
  with True show ?thesis
    by (auto simp: discardAuthoritativeStepsIfBufferGettingFull_def Let_def min_def)
next
  case False
  then have "min (stepsCount (authoritativeSteps game)) (NBS_WINDOW_SIZE E div 3) = stepsCount (authoritativeSteps game)"
    by (simp add: min_def not_less)
  with False show ?thesis by (simp add: discardAuthoritativeStepsIfBufferGettingFull_def Let_def)
qed

lemma collectStepRanges_run:
  assumes "pendingRangesLaw E"
  shows "\<exists>x. collectStepRanges E steps waiting received = Some x"
proof -
  obtain r rs where n: "nbsPendingStepsRanges E waiting (expectedWriteId steps) received (of_nat MAX_RANGES_COUNT) 8 = (r, rs)"
    by (cases "nbsPendingStepsRanges E waiting (expectedWriteId steps) received (of_nat MAX_RANGES_COUNT) 8")
  with assms have "0 \<le> r \<longrightarrow> r = int (length rs) \<and> length rs \<le> 3"
    unfolding pendingRangesLaw_def MAX_RANGES_COUNT_def by fastforce
  with n show ?thesis by (auto simp: collectStepRanges_def Let_def MAX_RANGES_COUNT_def)
qed

lemma noRanges_self: "\<exists>n. tc = tc\<lparr>tcNoRangesToSendCounter := n\<rparr>"
  by (rule exI [of _ "tcNoRangesToSendCounter tc"]) simp

lemma sendStepRanges_run:
  assumes "pendingRangesLaw E" "\<forall>i. tcAssignedParty tc = Some i \<longrightarrow> i < length lps"
  shows "\<exists>r s' n. nimbleServerSendStepRanges E s tc game lps waiting received =
    Some (r, s', tc\<lparr>tcNoRangesToSendCounter := n\<rparr>)"
proof -
  obtain x where x: "collectStepRanges E (authoritativeSteps game) waiting received = Some x"
    using collectStepRanges_run [OF assms(1)] by blast
  have status: "\<exists>a b c. partyStepStatus (authoritativeSteps game) (tcAssignedParty tc) lps = Some (a, b, c)"
    using assms(2) by (auto simp: partyStepStatus_def split: option.splits)
  show ?thesis
  proof (cases "waiting < expectedReadId (authoritativeSteps game)")
    case True
    then show ?thesis
      by (simp add: nimbleServerSendStepRanges_def split_beta Let_def noRanges_self)
  next
    case False
    with x status show ?thesis
      by (cases x) (auto simp: nimbleServerSendStepRanges_def split_beta Let_def noRanges_self)
  qed
qed

lemma sameButQuality_links: "sameButQuality a b \<Longrightarrow> map lpTransportConnection b = map lpTransportConnection a"
  unfolding sameButQuality_def by (induction rule: list_all2_induct) auto

lemma compose_bound:
  assumes "composeEnds E game w r game'" "0 \<le> r"
    "stepsCount (authoritativeSteps game) \<le> NBS_WINDOW_SIZE E div 3"
  shows "stepsCount (authoritativeSteps game') \<le> NBS_WINDOW_SIZE E div 2"
proof -
  obtain k where k: "k > 0 \<longrightarrow> unat (stepsCount (authoritativeSteps game)) + k \<le> unat (NBS_WINDOW_SIZE E div 2)"
    "stepsCount (authoritativeSteps game') = stepsCount (authoritativeSteps game) + of_nat k"
    using assms(1,2) by (auto simp: composeEnds_def)
  have le: "unat (stepsCount (authoritativeSteps game)) \<le> unat (NBS_WINDOW_SIZE E div 2)"
    using assms(3) by (simp add: word_le_nat_alt unat_div)
  with k(1) have "unat (stepsCount (authoritativeSteps game)) + k \<le> unat (NBS_WINDOW_SIZE E div 2)" by (cases "k = 0") auto
  moreover from this have "unat (stepsCount (authoritativeSteps game) + of_nat k) = unat (stepsCount (authoritativeSteps game)) + k"
    using unsigned_less [of "NBS_WINDOW_SIZE E div 2", where 'a = nat] by (subst unat_add_no_wrap) simp_all
  ultimately show ?thesis by (simp add: k(2) word_le_nat_alt)
qed

lemma readIncoming_run:
  assumes laws: "stepLaws E" and wf: "sessionWf lps (gameParticipants game)" and serves: "servesParty lps tc"
    and leave: "clogMode E = ClogOff \<or> noneLeaving (gameParticipants game)"
  shows "\<exists>r out game' pl stat' s'. readIncomingStepsAndCreateAuthoritativeSteps E game s tc (parties lps) stat =
      Some (r, out, game', pl, stat', s') \<and>
    sessionWf (lps\<lparr>parties := pl\<rparr>) (gameParticipants game') \<and> map lpTransportConnection pl = map lpTransportConnection (parties lps) \<and>
    (0 \<le> r \<longrightarrow> out \<noteq> None \<and> stepsCount (authoritativeSteps game') \<le> NBS_WINDOW_SIZE E div 2)"
proof -
  have l: "composeLaws E" "stepWriteLaw E" "stepDiscardLaw E" using laws by (auto simp: stepLaws_def)
  obtain game1 where d: "discardAuthoritativeStepsIfBufferGettingFull E game = (0, game1)"
    "stepsCount (authoritativeSteps game1) = min (stepsCount (authoritativeSteps game)) (NBS_WINDOW_SIZE E div 3)"
    "gameParticipants game1 = gameParticipants game"
    using discard_run [OF l(3), of game] by blast
  have le: "stepsCount (authoritativeSteps game1) \<le> NBS_WINDOW_SIZE E div 3" using d(2) by simp
  have wf1: "sessionWf lps (gameParticipants game1)" using wf d(3) by simp
  obtain r out game2 pl s1 where h:
    "nimbleServerHandleIncomingSteps E game1 s tc (parties lps) = Some (r, out, game2, pl, s1)"
    "sessionWf (lps\<lparr>parties := pl\<rparr>) (gameParticipants game2)" "map lpTransportConnection pl = map lpTransportConnection (parties lps)"
    "noneLeaving (gameParticipants game2) = noneLeaving (gameParticipants game1)"
    "authoritativeSteps game2 = authoritativeSteps game1" "0 \<le> r \<longrightarrow> out \<noteq> None"
    using handleIncoming_run [OF wf1 serves, of E s] by blast
  have leave2: "clogMode E = ClogOff \<or> noneLeaving (gameParticipants game2)" using leave h(4) d(3) by simp
  obtain a game3 pl2 where c:
    "composeLoop E 0 game2 pl = Some (a, game3, pl2)"
    "sessionWf (lps\<lparr>parties := pl2\<rparr>) (gameParticipants game3)" "sameButQuality pl pl2" "composeEnds E game2 0 a game3"
    using composeLoop_run [OF l(1,2) h(2) leave2, of 0] by auto
  have bound: "0 \<le> a \<longrightarrow> stepsCount (authoritativeSteps game3) \<le> NBS_WINDOW_SIZE E div 2"
    using compose_bound [OF c(4)] le h(5) by simp
  have frozen: "stepsCount (authoritativeSteps game2) \<le> NBS_WINDOW_SIZE E div 2"
    using compose_bound [of E game2 0 0 game2] le h(5) by (simp add: composeEnds_def exI [of _ 0])
  have run: "readIncomingStepsAndCreateAuthoritativeSteps E game s tc (parties lps) stat =
    (if r < 0 then Some (r, out, game2, pl, stat, s1)
     else if debugIsFrozen game2 then Some (0, out, game2, pl, stat, s1)
     else Some (a, out, game3, pl2, if a < 0 then stat else statsIntPerSecondAdd E stat a, s1))"
    using d(1) h(1) c(1)
    by (simp add: readIncomingStepsAndCreateAuthoritativeSteps_def nimbleServerComposeAuthoritativeSteps_def)
  show ?thesis
  proof (cases "r < 0 \<or> debugIsFrozen game2")
    case True
    with run h(2,3,6) frozen show ?thesis by auto
  next
    case False
    with run h(3,6) c(2) bound sameButQuality_links [OF c(3)] show ?thesis by simp
  qed
qed

lemma updateStats_run:
  assumes wf: "sessionWf lps ps" and serves: "servesParty lps tc"
  shows "\<exists>st n pl. nimbleServerTransportConnectionUpdateStats E tc (parties lps) game waiting =
      Some (tc\<lparr>tcStepsBehindStats := st, tcDebugCounter := n\<rparr>, pl) \<and>
    sessionWf (lps\<lparr>parties := pl\<rparr>) ps \<and> map lpTransportConnection pl = map lpTransportConnection (parties lps)"
proof (cases "tcAssignedParty tc")
  case None
  with wf show ?thesis by (simp add: nimbleServerTransportConnectionUpdateStats_def Let_def) blast
next
  case (Some i)
  let ?p = "(parties lps ! i)\<lparr>lpIncomingStepCountInBufferStats :=
    statsIntAdd E (lpIncomingStepCountInBufferStats (parties lps ! i)) (int_of_size (lpStepsInBufferCount (parties lps ! i)))\<rparr>"
  have i: "i < length (parties lps)" using serves Some by (simp add: servesParty_def)
  have "map lpTransportConnection ((parties lps)[i := ?p]) = map lpTransportConnection (parties lps)"
    by (rule links_update) simp
  with sessionWf_party [OF wf i, of ?p] Some i show ?thesis
    by (simp add: nimbleServerTransportConnectionUpdateStats_def Let_def) blast
qed

lemma stepStats_self:
  "tc\<lparr>tcStepsBehindStats := tcStepsBehindStats tc, tcDebugCounter := tcDebugCounter tc,
      tcNoRangesToSendCounter := tcNoRangesToSendCounter tc\<rparr> = tc"
  by simp

lemma reqGameStep_run:
  assumes laws: "stepLaws E" and wf: "sessionWf lps (gameParticipants game)" and serves: "servesParty lps tc"
    and leave: "clogMode E = ClogOff \<or> noneLeaving (gameParticipants game)"
  shows "\<exists>r game' st n m pl stat' s' o'. nimbleServerReqGameStep E game tc (parties lps) stat s out =
      Some (r, game', tc\<lparr>tcStepsBehindStats := st, tcDebugCounter := n, tcNoRangesToSendCounter := m\<rparr>, pl, stat', s', o') \<and>
    sessionWf (lps\<lparr>parties := pl\<rparr>) (gameParticipants game') \<and> map lpTransportConnection pl = map lpTransportConnection (parties lps) \<and>
    (0 \<le> r \<longrightarrow> stepsCount (authoritativeSteps game') \<le> NBS_WINDOW_SIZE E div 2)"
proof -
  obtain r res game1 pl stat1 s1 where rd:
    "readIncomingStepsAndCreateAuthoritativeSteps E game s tc (parties lps) stat = Some (r, res, game1, pl, stat1, s1)"
    "sessionWf (lps\<lparr>parties := pl\<rparr>) (gameParticipants game1)" "map lpTransportConnection pl = map lpTransportConnection (parties lps)"
    "0 \<le> r \<longrightarrow> res \<noteq> None \<and> stepsCount (authoritativeSteps game1) \<le> NBS_WINDOW_SIZE E div 2"
    using readIncoming_run [OF assms, of s stat] by (elim exE conjE) (rule that)
  show ?thesis
  proof (cases "r < 0")
    case True
    with rd(1) have "nimbleServerReqGameStep E game tc (parties lps) stat s out = Some (r, game1, tc, pl, stat1, s1, out)"
      by (simp add: nimbleServerReqGameStep_def)
    then have "nimbleServerReqGameStep E game tc (parties lps) stat s out = Some (r, game1,
        tc\<lparr>tcStepsBehindStats := tcStepsBehindStats tc, tcDebugCounter := tcDebugCounter tc,
           tcNoRangesToSendCounter := tcNoRangesToSendCounter tc\<rparr>, pl, stat1, s1, out)"
      unfolding stepStats_self .
    with rd(2-4) show ?thesis by blast
  next
    case False
    with rd(4) obtain w m where res: "res = Some (w, m)" and bound: "stepsCount (authoritativeSteps game1) \<le> NBS_WINDOW_SIZE E div 2"
      by auto
    have "servesParty (lps\<lparr>parties := pl\<rparr>) tc" using serves map_eq_imp_length_eq [OF rd(3)] by (simp add: servesParty_def)
    from updateStats_run [OF rd(2) this, of E game1 w] obtain st n pl2 where
      u: "nimbleServerTransportConnectionUpdateStats E tc pl game1 w = Some (tc\<lparr>tcStepsBehindStats := st, tcDebugCounter := n\<rparr>, pl2)"
        "sessionWf (lps\<lparr>parties := pl2\<rparr>) (gameParticipants game1)" "map lpTransportConnection pl2 = map lpTransportConnection pl" by auto
    obtain r' o' k where snd': "nimbleServerSendStepRanges E out (tc\<lparr>tcStepsBehindStats := st, tcDebugCounter := n\<rparr>) game1 pl2 w m =
        Some (r', o', tc\<lparr>tcStepsBehindStats := st, tcDebugCounter := n, tcNoRangesToSendCounter := k\<rparr>)"
      using sendStepRanges_run [of E "tc\<lparr>tcStepsBehindStats := st, tcDebugCounter := n\<rparr>" pl2 out game1 w m] laws serves map_eq_imp_length_eq [OF u(3)] map_eq_imp_length_eq [OF rd(3)]
      by (auto simp: stepLaws_def servesParty_def)
    have "nimbleServerReqGameStep E game tc (parties lps) stat s out =
        Some (r', game1, tc\<lparr>tcStepsBehindStats := st, tcDebugCounter := n, tcNoRangesToSendCounter := k\<rparr>, pl2, stat1, s1, o')"
      using False rd(1) res u(1) snd' by (simp add: nimbleServerReqGameStep_def)
    with u(2,3) rd(3) bound show ?thesis by auto
  qed
qed

lemma demo_stepLaws: "stepLaws (demoEnv c)"
proof -
  have "stepDiscardLaw (demoEnv c)" by (simp add: stepDiscardLaw_def demoEnv_def demoStepsDiscard_def)
  moreover have "pendingRangesLaw (demoEnv c)" by (simp add: pendingRangesLaw_def demoEnv_def)
  ultimately show ?thesis by (simp add: stepLaws_def demo_composeLaws demo_stepWriteLaw)
qed

section \<open>Properties\<close>





end
