(* ===== verification/ReqGameState.thy ===== *)
theory ReqGameState
  imports ReqStep
begin

text \<open>
  Downloading the game state: \<open>src/src/lib/req_game_state.c\<close> and the blob stream that carries it,
  \<open>src/src/lib/req_game_state_ack.c\<close>. \<open>send\<close> is the function behind \<open>transportOut\<close>; the state of
  the outside world, which the clock, the application's callback and sending change, is threaded
  through. The octets of a datagram are those written to its stream.
\<close>

section \<open>Sending the blob stream\<close>

text \<open>The loop over the entries to send. A datagram that is too long ends it.\<close>

fun sendBlobEntries ::
  "'x Env \<Rightarrow> 'x transportOut \<Rightarrow> u16 \<Rightarrow> 'x list \<Rightarrow> 'x NimbleServerTransportConnection \<Rightarrow> 'x \<Rightarrow>
   int \<times> 'x NimbleServerTransportConnection \<times> 'x" where
  "sendBlobEntries E send clientTime [] tc w = (0, tc, w)"
| "sendBlobEntries E send clientTime (entry # entries) tc w =
     (let s0 = (fldOutStreamInit E (DATAGRAM_TRANSPORT_MAX_SIZE E))\<lparr>outWriteDebugInfo := True\<rparr>;
          (_, tc1, s1) = transportConnectionWriteHeader E tc s0 clientTime;
          s2 = snd (nimbleSerializeWriteCommand E s1 NimbleSerializeCmdServerOutBlobStream);
          s3 = snd (blobStreamLogicOutSendEntry E s2 entry (transferId (tcBlobStreamLogicOut tc1)));
          tc2 = transportConnectionCommitHeader E tc1
      in if outPos s3 > datagramTransportMaxSize E then (NimbleServerErrSerialize, tc2, w)
         else sendBlobEntries E send clientTime entries tc2 (snd (send (outOctets s3) w)))"

definition nimbleServerSendBlobStream ::
  "'x Env \<Rightarrow> 'x NimbleServerTransportConnection \<Rightarrow> 'x transportOut \<Rightarrow> u16 \<Rightarrow> 'x \<Rightarrow>
   int \<times> 'x NimbleServerTransportConnection \<times> 'x" where
  "nimbleServerSendBlobStream E transportConnection send clientTime w =
     (let (now, w1) = monotonicTimeMsNow E w;
          (entries, logic) = blobStreamLogicOutPrepareSend E (tcBlobStreamLogicOut transportConnection) now 4
      in sendBlobEntries E send clientTime entries (transportConnection\<lparr>tcBlobStreamLogicOut := logic\<rparr>) w1)"

definition nimbleServerReqBlobStream ::
  "'x Env \<Rightarrow> 'x NimbleServerTransportConnection \<Rightarrow> 'x FldInStream \<Rightarrow> 'x transportOut \<Rightarrow> u16 \<Rightarrow> 'x \<Rightarrow>
   int \<times> 'x NimbleServerTransportConnection \<times> 'x FldInStream \<times> 'x" where
  "nimbleServerReqBlobStream E transportConnection inStream send clientTime w =
     (let (receiveResult, logic, inStream1) =
            blobStreamLogicOutReceive E (tcBlobStreamLogicOut transportConnection) inStream;
          tc1 = transportConnection\<lparr>tcBlobStreamLogicOut := logic\<rparr>
      in if receiveResult < 0 then (receiveResult, tc1, inStream1, w)
         else let (r, tc2, w1) = nimbleServerSendBlobStream E tc1 send clientTime w in (r, tc2, inStream1, w1))"

section \<open>The download request\<close>

text \<open>
  A request id that was not served yet: the state is fetched from the application and copied to the
  connection (the answer of \<open>nimbleServerGameStateSet\<close> is not looked at), and a new stream is set up.
\<close>

definition startDownload ::
  "'x Env \<Rightarrow> 'x NimbleServerTransportConnection \<Rightarrow> u8 \<Rightarrow> 'x \<Rightarrow> ('x NimbleServerTransportConnection \<times> 'x) option" where
  "startDownload E transportConnection downloadClientRequestId w = do {
     let (serialized, w1) = authoritativeStateSerializeFn E w;
     (_, gameState) \<leftarrow> nimbleServerGameStateSet (tcGameState transportConnection) (ssStepId serialized)
       (ssGameState serialized) (ssGameStateOctetCount serialized);
     let stream = blobStreamOutInit E (tcBlobStreamOut transportConnection) (gsState gameState) (gsOctetCount gameState);
     let tc1 = transportConnection\<lparr>tcGameState := gameState, tcBlobStreamOut := stream,
       tcBlobStreamLogicOut := blobStreamLogicOutInit E stream (tcNextBlobStreamOutChannel transportConnection),
       tcNextBlobStreamOutChannel := blobTransferId E (tcNextBlobStreamOutChannel transportConnection + 1),
       tcBlobStreamOutClientRequestId := downloadClientRequestId\<rparr>;
     Some (transportConnectionSetGameStateTickId tc1, w1)
   }"

text \<open>The response, in one datagram with the start of the transfer.\<close>

definition sendDownloadResponse ::
  "'x Env \<Rightarrow> 'x NimbleServerTransportConnection \<Rightarrow> 'x transportOut \<Rightarrow> u16 \<Rightarrow> 'x \<Rightarrow>
   int \<times> 'x NimbleServerTransportConnection \<times> 'x" where
  "sendDownloadResponse E transportConnection send clientTime w =
     (let latestState = tcGameState transportConnection;
          outGameState = \<lparr>sgStepId = gsStepId latestState, sgOctetCount = gsOctetCount latestState,
                          sgState = gsState latestState\<rparr>;
          (_, tc1, s1) = transportConnectionWriteHeader E transportConnection (fldOutStreamInit E 256) clientTime;
          (err, s2) = nimbleSerializeServerOutGameStateResponse E s1 outGameState (tcBlobStreamOutClientRequestId tc1)
            (transferId (tcBlobStreamLogicOut tc1))
      in if err < 0 then (err, tc1, w)
         else let s3 = snd (nimbleSerializeWriteCommand E s2 NimbleSerializeCmdServerOutBlobStream);
                  (err1, logic, s4) = blobStreamLogicOutStartTransfer E (tcBlobStreamLogicOut tc1) s3;
                  tc2 = tc1\<lparr>tcBlobStreamLogicOut := logic\<rparr>
              in if err1 < 0 then (err1, tc2, w)
                 else (0, transportConnectionCommitHeader E tc2, snd (send (outOctets s4) w)))"

definition nimbleServerReqDownloadGameState ::
  "'x Env \<Rightarrow> 'x NimbleServerTransportConnection \<Rightarrow> 'x FldInStream \<Rightarrow> 'x transportOut \<Rightarrow> u16 \<Rightarrow> 'x \<Rightarrow>
   (int \<times> 'x NimbleServerTransportConnection \<times> 'x FldInStream \<times> 'x) option" where
  "nimbleServerReqDownloadGameState E transportConnection inStream send clientTime w = do {
     let (_, downloadClientRequestId, inStream1) = fldInStreamReadUInt8 E inStream;
     clogAssert (clogMode E) (downloadClientRequestId \<noteq> 0);
     (tc1, w1) \<leftarrow> (if downloadClientRequestId = tcBlobStreamOutClientRequestId transportConnection
                  then Some (transportConnection, w)
                  else startDownload E transportConnection downloadClientRequestId w);
     let (err, tc2, w2) = sendDownloadResponse E tc1 send clientTime w1;
     if err < 0 then Some (err, tc2, inStream1, w2)
     else do {
       let (r, tc3, w3) = nimbleServerSendBlobStream E tc2 send clientTime w2;
       Some (r, tc3, inStream1, w3)
     }
   }"

section \<open>Specification\<close>

text \<open>
  \<open>streamOnly tc tc'\<close>: sending changed at most the datagram sequence and the progress of the stream.
  \<open>downloadOf tc\<close> is what the connection offers: the state with its step id, the request it answers, the
  stream made of it and the next channel.
\<close>

definition streamOnly :: "'x NimbleServerTransportConnection \<Rightarrow> 'x NimbleServerTransportConnection \<Rightarrow> bool" where
  "streamOnly tc tc' \<longleftrightarrow> (\<exists>ol bl. tc' = tc\<lparr>tcOrderedDatagramOutLogic := ol, tcBlobStreamLogicOut := bl\<rparr>)"

definition downloadOf :: "'x NimbleServerTransportConnection \<Rightarrow> octets \<times> StepId \<times> u8 \<times> 'x \<times> int" where
  "downloadOf tc = (gsOctets (tcGameState tc), gsStepId (tcGameState tc), tcBlobStreamOutClientRequestId tc,
     tcBlobStreamOut tc, tcNextBlobStreamOutChannel tc)"

text \<open>The application hands over as many octets as it says.\<close>

definition serializeLaw :: "'x Env \<Rightarrow> bool" where
  "serializeLaw E \<longleftrightarrow> (\<forall>w. unat (ssGameStateOctetCount (fst (authoritativeStateSerializeFn E w))) \<le>
     length (ssGameState (fst (authoritativeStateSerializeFn E w))))"

section \<open>Lemmas\<close>

lemma streamOnly_refl: "streamOnly tc tc"
  unfolding streamOnly_def
  by (rule exI [of _ "tcOrderedDatagramOutLogic tc"], rule exI [of _ "tcBlobStreamLogicOut tc"]) simp

lemma streamOnly_trans: "streamOnly a b \<Longrightarrow> streamOnly b c \<Longrightarrow> streamOnly a c"
  unfolding streamOnly_def by (elim exE) (simp, blast)

lemma streamOnly_header:
  "streamOnly tc (fst (snd (transportConnectionWriteHeader E tc s t)))"
  "streamOnly tc (transportConnectionCommitHeader E tc)"
  "streamOnly tc (tc\<lparr>tcBlobStreamLogicOut := bl\<rparr>)"
proof -
  have 1: "\<exists>bl. tc\<lparr>tcOrderedDatagramOutLogic := x\<rparr> = tc\<lparr>tcOrderedDatagramOutLogic := x, tcBlobStreamLogicOut := bl\<rparr>" for x
    by (rule exI [of _ "tcBlobStreamLogicOut tc"]) simp
  show "streamOnly tc (fst (snd (transportConnectionWriteHeader E tc s t)))"
    "streamOnly tc (transportConnectionCommitHeader E tc)"
    unfolding streamOnly_def transportConnectionWriteHeader_def transportConnectionCommitHeader_def Let_def split_beta
      fst_conv snd_conv
    by (rule exI, rule 1)+
  show "streamOnly tc (tc\<lparr>tcBlobStreamLogicOut := bl\<rparr>)"
    unfolding streamOnly_def
    by (rule exI [of _ "tcOrderedDatagramOutLogic tc"], rule exI [of _ bl]) simp
qed

lemma sendBlobEntries_streamOnly:
  "sendBlobEntries E send t entries tc w = (r, tc', w') \<Longrightarrow> streamOnly tc tc' \<and> r \<le> 0"
proof (induction entries arbitrary: tc w)
  case Nil
  then show ?case by (simp add: streamOnly_refl)
next
  case (Cons e es)
  obtain x tc1 s1 where h: "transportConnectionWriteHeader E tc
      ((fldOutStreamInit E (DATAGRAM_TRANSPORT_MAX_SIZE E))\<lparr>outWriteDebugInfo := True\<rparr>) t = (x, tc1, s1)"
    by (cases "transportConnectionWriteHeader E tc
      ((fldOutStreamInit E (DATAGRAM_TRANSPORT_MAX_SIZE E))\<lparr>outWriteDebugInfo := True\<rparr>) t")
  have "streamOnly tc tc1" using streamOnly_header(1) [of tc E _ t] h by (metis fst_conv snd_conv)
  then have "streamOnly tc (transportConnectionCommitHeader E tc1)"
    by (rule streamOnly_trans) (rule streamOnly_header)
  with Cons h show ?case
    by (auto simp: Let_def NimbleServerErrSerialize_def split: if_splits intro: streamOnly_trans)
qed

lemma sendBlobStream_streamOnly:
  assumes "nimbleServerSendBlobStream E tc send t w = (r, tc', w')"
  shows "streamOnly tc tc' \<and> r \<le> 0"
proof -
  obtain entries logic w1 where "sendBlobEntries E send t entries (tc\<lparr>tcBlobStreamLogicOut := logic\<rparr>) w1 = (r, tc', w')"
    using assms by (auto simp: nimbleServerSendBlobStream_def split: prod.splits)
  from sendBlobEntries_streamOnly [OF this] streamOnly_header(3) show ?thesis by (blast intro: streamOnly_trans)
qed

lemma sendDownloadResponse_streamOnly:
  assumes "sendDownloadResponse E tc send t w = (r, tc', w')"
  shows "streamOnly tc tc' \<and> r \<le> 0"
proof -
  obtain x tc1 s1 where h: "transportConnectionWriteHeader E tc (fldOutStreamInit E 256) t = (x, tc1, s1)"
    by (cases "transportConnectionWriteHeader E tc (fldOutStreamInit E 256) t")
  then have 1: "streamOnly tc tc1" using streamOnly_header(1) [of tc E _ t] by (metis fst_conv snd_conv)
  then have 2: "streamOnly tc (tc1\<lparr>tcBlobStreamLogicOut := l\<rparr>)"
    "streamOnly tc (transportConnectionCommitHeader E (tc1\<lparr>tcBlobStreamLogicOut := l\<rparr>))" for l
    by (blast intro: streamOnly_trans streamOnly_header)+
  from assms h 1 2 show ?thesis
    by (auto simp: sendDownloadResponse_def Let_def split: prod.splits if_splits)
qed

lemma streamOnly_download:
  "streamOnly tc tc' \<Longrightarrow> tcGameState tc' = tcGameState tc \<and> downloadOf tc' = downloadOf tc \<and> tcPhase tc' = tcPhase tc"
  by (auto simp: streamOnly_def downloadOf_def)

lemma reqDownload_returns:
  assumes "fldInStreamReadUInt8 E s = (e, reqId, s1)" "clogMode E = ClogOff \<or> reqId \<noteq> 0"
    "(if reqId = tcBlobStreamOutClientRequestId tc then Some (tc, w) else startDownload E tc reqId w) = Some (tc1, w1)"
  shows "\<exists>r tc' w'. nimbleServerReqDownloadGameState E tc s send t w = Some (r, tc', s1, w') \<and> r \<le> 0 \<and> streamOnly tc1 tc'"
proof -
  have a: "clogAssert (clogMode E) (reqId \<noteq> 0) = Some ()" using assms(2) by (auto simp: clogAssert_Some)
  obtain err tc2 w2 where r: "sendDownloadResponse E tc1 send t w1 = (err, tc2, w2)"
    by (cases "sendDownloadResponse E tc1 send t w1")
  obtain r3 tc3 w3 where b: "nimbleServerSendBlobStream E tc2 send t w2 = (r3, tc3, w3)"
    by (cases "nimbleServerSendBlobStream E tc2 send t w2")
  from sendDownloadResponse_streamOnly [OF r] sendBlobStream_streamOnly [OF b]
  have "streamOnly tc1 tc2" "err \<le> 0" "streamOnly tc1 tc3" "r3 \<le> 0" by (auto intro: streamOnly_trans)
  with assms(1,3) a r b show ?thesis
    by (cases "err < 0") (simp_all add: nimbleServerReqDownloadGameState_def)
qed

text \<open>Sending does not involve the application's callback.\<close>

lemma sendBlobEntries_noCallback:
  "sendBlobEntries (E\<lparr>authoritativeStateSerializeFn := f\<rparr>) send t entries tc w = sendBlobEntries E send t entries tc w"
  by (induction entries arbitrary: tc w)
    (simp_all add: transportConnectionWriteHeader_def transportConnectionCommitHeader_def Let_def split_beta)

lemma sending_noCallback:
  "nimbleServerSendBlobStream (E\<lparr>authoritativeStateSerializeFn := f\<rparr>) tc send t w = nimbleServerSendBlobStream E tc send t w"
  "sendDownloadResponse (E\<lparr>authoritativeStateSerializeFn := f\<rparr>) tc send t w = sendDownloadResponse E tc send t w"
  by (simp_all add: nimbleServerSendBlobStream_def sendBlobEntries_noCallback sendDownloadResponse_def
      transportConnectionWriteHeader_def transportConnectionCommitHeader_def Let_def split_beta)

section \<open>Properties\<close>

text \<open>
  C28. Asking again for a download that is already under way is answered from the connection: the call
  returns, the state, its step id, the stream and the channel stay as they are, and the application is
  not asked for its state again (the run is the same whatever its callback would do).
\<close>

theorem reqDownload_repeated:
  assumes "fldInStreamReadUInt8 E s = (e, tcBlobStreamOutClientRequestId tc, s1)"
    and "clogMode E = ClogOff \<or> tcBlobStreamOutClientRequestId tc \<noteq> 0"
  shows "(\<exists>r tc' w'. nimbleServerReqDownloadGameState E tc s send t w = Some (r, tc', s1, w') \<and> r \<le> 0 \<and>
      downloadOf tc' = downloadOf tc) \<and>
    nimbleServerReqDownloadGameState (E\<lparr>authoritativeStateSerializeFn := f\<rparr>) tc s send t w =
      nimbleServerReqDownloadGameState E tc s send t w"
proof
  show "\<exists>r tc' w'. nimbleServerReqDownloadGameState E tc s send t w = Some (r, tc', s1, w') \<and> r \<le> 0 \<and>
      downloadOf tc' = downloadOf tc"
    using reqDownload_returns [OF assms, of tc w tc w send t] streamOnly_download by fastforce
  show "nimbleServerReqDownloadGameState (E\<lparr>authoritativeStateSerializeFn := f\<rparr>) tc s send t w =
      nimbleServerReqDownloadGameState E tc s send t w"
    using assms(1) by (simp add: nimbleServerReqDownloadGameState_def sending_noCallback split_beta Let_def)
qed

theorem reqDownload_repeated_witness:
  "\<exists>r tc' s1 w'. nimbleServerReqDownloadGameState (demoEnv ClogFatal)
      ((demoConnection None)\<lparr>tcBlobStreamOutClientRequestId := 7\<rparr>) (demoInInit [7]) (\<lambda>os w. demoSend w 0 os) 0
      (DWorld 0 [] []) = Some (r, tc', s1, w') \<and> tcNextBlobStreamOutChannel tc' = 127"
proof -
  let ?tc = "(demoConnection None)\<lparr>tcBlobStreamOutClientRequestId := 7\<rparr>"
  have rd: "fldInStreamReadUInt8 (demoEnv ClogFatal) (demoInInit [7]) =
      (0, tcBlobStreamOutClientRequestId ?tc, (demoInInit [7])\<lparr>inPos := 1\<rparr>)"
    by (simp add: demoEnv_def demoRead8_def demoInInit_def)
  have "tcNextBlobStreamOutChannel ?tc = 127" by (simp add: demoConnection_def)
  with reqDownload_repeated [OF rd, of "\<lambda>os w. demoSend w 0 os" 0 "DWorld 0 [] []"] show ?thesis
    by (fastforce simp: downloadOf_def)
qed

text \<open>
  C23. A new download request returns and records the request. When the application's state is newer
  than the one the connection holds and fits its buffer, exactly those octets are offered with their
  step id. Otherwise the connection silently keeps offering the state it already had.
\<close>

theorem reqDownload_new:
  assumes "fldInStreamReadUInt8 E s = (e, reqId, s1)" "reqId \<noteq> tcBlobStreamOutClientRequestId tc" "reqId \<noteq> 0"
    and "gsInvar (tcGameState tc)" "serializeLaw E"
    and "authoritativeStateSerializeFn E w = (app, w1)"
  shows "\<exists>r tc' w'. nimbleServerReqDownloadGameState E tc s send t w = Some (r, tc', s1, w') \<and> r \<le> 0 \<and>
    tcBlobStreamOutClientRequestId tc' = reqId \<and> gsInvar (tcGameState tc') \<and>
    tcNextBlobStreamOutChannel tc' = blobTransferId E (tcNextBlobStreamOutChannel tc + 1) \<and>
    tcPhase tc' = NbTransportConnectionPhaseInitialStateDetermined \<and>
    tcBlobStreamOut tc' = blobStreamOutInit E (tcBlobStreamOut tc) (gsState (tcGameState tc')) (gsOctetCount (tcGameState tc')) \<and>
    (if (gsOctetCount (tcGameState tc) = 0 \<or> gsStepId (tcGameState tc) < ssStepId app) \<and>
        ssGameStateOctetCount app \<le> gsCapacity (tcGameState tc)
     then gsOctets (tcGameState tc') = take (unat (ssGameStateOctetCount app)) (ssGameState app) \<and>
          gsStepId (tcGameState tc') = ssStepId app
     else tcGameState tc' = tcGameState tc)"
proof -
  let ?gs = "tcGameState tc" and ?n = "ssGameStateOctetCount app"
  let ?ok = "(gsOctetCount ?gs = 0 \<or> gsStepId ?gs < ssStepId app) \<and> ?n \<le> gsCapacity ?gs"
  have len: "unat ?n \<le> length (ssGameState app)" using assms(5,6) unfolding serializeLaw_def by (metis fst_conv)
  obtain r0 gs where set: "nimbleServerGameStateSet ?gs (ssStepId app) (ssGameState app) ?n = Some (r0, gs)" "gsInvar gs"
    "if ?ok then gsOctets gs = take (unat ?n) (ssGameState app) \<and> gsStepId gs = ssStepId app else gs = ?gs"
  proof (cases ?ok)
    case True
    with gameStateSet_accepts [OF assms(4) _ _ len, of "ssStepId app"] that show thesis by auto
  next
    case False
    then have "gsOctetCount ?gs \<noteq> 0 \<and> ssStepId app \<le> gsStepId ?gs \<or>
        (gsOctetCount ?gs = 0 \<or> gsStepId ?gs < ssStepId app) \<and> gsCapacity ?gs < ?n"
      by (meson linorder_not_le)
    with False gameStateSet_stale [of ?gs "ssStepId app"] gameStateSet_too_big [of ?gs "ssStepId app" ?n] assms(4) that
    show thesis by (metis (no_types, lifting))
  qed
  obtain tc1 where st: "startDownload E tc reqId w = Some (tc1, w1)" "tcGameState tc1 = gs"
    "tcBlobStreamOutClientRequestId tc1 = reqId" "tcPhase tc1 = NbTransportConnectionPhaseInitialStateDetermined"
    "tcNextBlobStreamOutChannel tc1 = blobTransferId E (tcNextBlobStreamOutChannel tc + 1)"
    "tcBlobStreamOut tc1 = blobStreamOutInit E (tcBlobStreamOut tc) (gsState gs) (gsOctetCount gs)"
    using set(1) assms(6) by (simp add: startDownload_def transportConnectionSetGameStateTickId_def Let_def)
  obtain r tc' w' where run: "nimbleServerReqDownloadGameState E tc s send t w = Some (r, tc', s1, w')" "r \<le> 0" "streamOnly tc1 tc'"
    using reqDownload_returns [OF assms(1), of tc w tc1 w1 send t] assms(2,3) st(1) by auto
  have "tcGameState tc' = gs" "downloadOf tc' = downloadOf tc1" "tcPhase tc' = tcPhase tc1"
    using streamOnly_download [OF run(3)] st(2) by auto
  with run(1,2) set(2,3) st show ?thesis by (intro exI [of _ r] exI [of _ tc'] exI [of _ w']) (simp add: downloadOf_def)
qed

theorem reqDownload_new_witness:
  "\<exists>r tc' s1 w'. nimbleServerReqDownloadGameState (demoEnv ClogFatal)
      ((demoConnection None)\<lparr>tcGameState := \<lparr>gsState = [0, 0, 0, 0], gsOctetCount = 0, gsCapacity = 4, gsStepId = 0\<rparr>\<rparr>)
      (demoInInit [7]) (\<lambda>os w. demoSend w 0 os) 0 (DWorld 0 [] []) = Some (r, tc', s1, w') \<and>
    gsOctets (tcGameState tc') = [10, 11, 12] \<and> gsStepId (tcGameState tc') = 5"
proof -
  let ?E = "demoEnv ClogFatal"
  let ?tc = "(demoConnection None)\<lparr>tcGameState := \<lparr>gsState = [0, 0, 0, 0], gsOctetCount = 0, gsCapacity = 4, gsStepId = 0\<rparr>\<rparr>"
  have rd: "fldInStreamReadUInt8 ?E (demoInInit [7]) = (0, 7, (demoInInit [7])\<lparr>inPos := 1\<rparr>)"
    by (simp add: demoEnv_def demoRead8_def demoInInit_def)
  have app: "authoritativeStateSerializeFn ?E (DWorld 0 [] []) =
      (\<lparr>ssGameState = [10, 11, 12], ssGameStateOctetCount = 3, ssStepId = 5, ssHash = 0\<rparr>, DWorld 0 [] [])"
    by (simp add: demoEnv_def)
  have "serializeLaw ?E" by (simp add: serializeLaw_def demoEnv_def)
  moreover have "(7 :: u8) \<noteq> tcBlobStreamOutClientRequestId ?tc" "gsInvar (tcGameState ?tc)"
    by (simp_all add: demoConnection_def gsInvar_def)
  ultimately show ?thesis
    using reqDownload_new [OF rd _ _ _ _ app, of ?tc "\<lambda>os w. demoSend w 0 os" 0] by fastforce
qed

end
