(* ===== verification/ReqConnect.thy ===== *)
theory ReqConnect
  imports ReqGameState UpdateQuality
begin

text \<open>
  The state of the server (\<open>src/src/include/nimble-server/server.h\<close>) and the handler of a connect
  request, \<open>src/src/lib/req_connect.c\<close>. Of the allocators in the setup only whether they are given
  is kept; the transport and the application's callback are functions of the environment.
\<close>

section \<open>The server\<close>

definition NIMBLE_NIMBLE_SERVER_MAX_TRANSPORT_CONNECTIONS :: nat where
  "NIMBLE_NIMBLE_SERVER_MAX_TRANSPORT_CONNECTIONS = 64"

definition NimbleServerErrSerializeVersion :: int where
  "NimbleServerErrSerializeVersion = -44"

record 'x NimbleServerSetup =
  suApplicationVersion :: 'x
  suHasMemory :: bool
  suHasBlobAllocator :: bool
  suMaxConnectionCount :: size_t
  suMaxParticipantCount :: size_t
  suMaxSingleParticipantStepOctetCount :: size_t
  suMaxParticipantCountForEachConnection :: size_t
  suMaxWaitingForReconnectTicks :: size_t
  suMaxGameStateOctetCount :: size_t
  suNow :: int
  suTargetTickTimeMs :: size_t

record 'x NimbleServer =
  transportConnections :: "'x NimbleServerTransportConnection list"
  localParties :: "'x NimbleServerLocalParties"
  game :: "'x NimbleServerGame"
  applicationVersion :: 'x
  serverSetup :: "'x NimbleServerSetup"
  statsCounter :: u16
  authoritativeStepsPerSecondStat :: 'x
  updateQuality :: "'x NimbleServerUpdateQuality"
  freeTransportConnectionList :: NimbleServerCircularBuffer
  sessionSecret :: u64

section \<open>The connect request\<close>

text \<open>The loop of \<open>findExistingConnectionRequest\<close> from position \<open>i\<close>, \<open>n\<close> to go.\<close>

fun findExistingConnectionFrom ::
  "'x NimbleServerTransportConnection list \<Rightarrow> u8 \<Rightarrow> u8 \<Rightarrow> nat \<Rightarrow> nat \<Rightarrow> nat option option" where
  "findExistingConnectionFrom tcs transportConnectionIndex connectionRequestId i 0 = Some None"
| "findExistingConnectionFrom tcs transportConnectionIndex connectionRequestId i (Suc n) = do {
     connection \<leftarrow> readAt tcs i;
     if tcIsUsed connection \<and> tcTransportIndex connection = transportConnectionIndex \<and>
        tcConnectedFromConnectRequestId connection = connectionRequestId
     then Some (Some i)
     else findExistingConnectionFrom tcs transportConnectionIndex connectionRequestId (Suc i) n
   }"

definition findExistingConnectionRequest ::
  "'x NimbleServer \<Rightarrow> u8 \<Rightarrow> u8 \<Rightarrow> nat option option" where
  "findExistingConnectionRequest self transportConnectionIndex connectionRequestId =
     findExistingConnectionFrom (transportConnections self) transportConnectionIndex connectionRequestId 0
       NIMBLE_NIMBLE_SERVER_MAX_TRANSPORT_CONNECTIONS"

text \<open>
  Taking a connection from the free list for a new request. The connection is filled in and then
  initialised, which sets the phase and the debug flag again.
\<close>

definition openConnection ::
  "'x Env \<Rightarrow> 'x NimbleServer \<Rightarrow> u8 \<Rightarrow> 'x NimbleSerializeConnectRequest \<Rightarrow> 'x \<Rightarrow> (nat \<times> 'x NimbleServer \<times> 'x) option" where
  "openConnection E self transportConnectionIndex connectOptions w = do {
     (freeTransportIndex, fl) \<leftarrow> nimbleServerCircularBufferRead (clogMode E) (freeTransportConnectionList self);
     transportConnection \<leftarrow> readAt (transportConnections self) (unat freeTransportIndex);
     clogErrorIf (clogMode E) (tcIsUsed transportConnection);
     let (secret, w1) = secureRandomUInt64 E w;
     let tc1 = transportConnection\<lparr>tcIsUsed := True, tcTransportIndex := transportConnectionIndex,
       tcConnectedFromConnectRequestId := crClientRequestId connectOptions, tcSecret := secret,
       tcUseDebugStreams := crUseDebugStreams connectOptions, tcPhase := NbTransportConnectionPhaseConnected,
       tcId := freeTransportIndex\<rparr>;
     let tc2 = transportConnectionInit E tc1 (suMaxGameStateOctetCount (serverSetup self));
     Some (unat freeTransportIndex, self\<lparr>freeTransportConnectionList := fl,
       transportConnections := (transportConnections self)[unat freeTransportIndex := tc2]\<rparr>, w1)
   }"

definition respondConnected ::
  "'x Env \<Rightarrow> 'x NimbleServer \<Rightarrow> nat \<Rightarrow> u8 \<Rightarrow> 'x FldOutStream \<Rightarrow> (int \<times> 'x FldOutStream) option" where
  "respondConnected E self i clientRequestId outStream = do {
     transportConnection \<leftarrow> readAt (transportConnections self) i;
     Some (nimbleSerializeServerOutConnectResponse E outStream
       \<lparr>crsUseDebugStreams = tcUseDebugStreams transportConnection, crsConnectionId = tcId transportConnection,
        crsResponseToRequestId = clientRequestId\<rparr>)
   }"

definition nimbleServerReqConnect ::
  "'x Env \<Rightarrow> 'x NimbleServer \<Rightarrow> u8 \<Rightarrow> 'x FldInStream \<Rightarrow> 'x FldOutStream \<Rightarrow> 'x \<Rightarrow>
   (int \<times> 'x NimbleServer \<times> 'x FldInStream \<times> 'x FldOutStream \<times> 'x) option" where
  "nimbleServerReqConnect E self transportConnectionIndex inStream outStream w = do {
     let (serializeErr, connectOptions, inStream1) = nimbleSerializeServerInConnectRequest E inStream;
     if serializeErr < 0 then Some (NimbleServerErrSerializeVersion, self, inStream1, outStream, w)
     else if \<not> nimbleSerializeVersionIsEqual E (applicationVersion self) (crApplicationVersion connectOptions)
     then Some (NimbleServerErrSerializeVersion, self, inStream1, outStream, w)
     else do {
       found \<leftarrow> findExistingConnectionRequest self transportConnectionIndex (crClientRequestId connectOptions);
       case found of
         Some i \<Rightarrow> do {
           (r, outStream1) \<leftarrow> respondConnected E self i (crClientRequestId connectOptions) outStream;
           Some (r, self, inStream1, outStream1, w)
         }
       | None \<Rightarrow>
           if nimbleServerCircularBufferIsEmpty (freeTransportConnectionList self)
           then Some (NimbleServerErrSerialize, self, inStream1, outStream, w)
           else do {
             (i, self1, w1) \<leftarrow> openConnection E self transportConnectionIndex connectOptions w;
             (r, outStream1) \<leftarrow> respondConnected E self1 i (crClientRequestId connectOptions) outStream;
             Some (r, self1, inStream1, outStream1, w1)
           }
     }
   }"

section \<open>Specification\<close>

text \<open>
  \<open>connectionTable\<close>: there are 64 connections, each with its position as transport connection id, and
  the free list is a list of positions. \<open>freeConnections\<close> says that none of the listed ones is in use.
\<close>

definition connectionTable :: "'x NimbleServer \<Rightarrow> bool" where
  "connectionTable self \<longleftrightarrow>
     length (transportConnections self) = NIMBLE_NIMBLE_SERVER_MAX_TRANSPORT_CONNECTIONS \<and>
     (\<forall>i < length (transportConnections self). unat (tcTransportConnectionId (transportConnections self ! i)) = i) \<and>
     cbInvar (freeTransportConnectionList self) \<and>
     (\<forall>x \<in> set (cbContents (freeTransportConnectionList self)). unat x < length (transportConnections self))"

definition freeConnections :: "'x NimbleServer \<Rightarrow> bool" where
  "freeConnections self \<longleftrightarrow> (\<forall>x \<in> set (cbContents (freeTransportConnectionList self)).
     \<not> tcIsUsed (transportConnections self ! unat x))"

definition sameRequest :: "u8 \<Rightarrow> u8 \<Rightarrow> 'x NimbleServerTransportConnection \<Rightarrow> bool" where
  "sameRequest transportConnectionIndex connectionRequestId tc \<longleftrightarrow> tcIsUsed tc \<and>
     tcTransportIndex tc = transportConnectionIndex \<and> tcConnectedFromConnectRequestId tc = connectionRequestId"

definition connectionAnswer :: "'x NimbleServerTransportConnection \<Rightarrow> u8 \<Rightarrow> NimbleSerializeConnectResponse" where
  "connectionAnswer tc requestId = \<lparr>crsUseDebugStreams = tcUseDebugStreams tc, crsConnectionId = tcId tc,
     crsResponseToRequestId = requestId\<rparr>"

text \<open>The connection a new request leaves in its place.\<close>

definition openedConnection ::
  "'x Env \<Rightarrow> 'x NimbleServer \<Rightarrow> u8 \<Rightarrow> u8 \<Rightarrow> u8 \<Rightarrow> 'x \<Rightarrow> 'x NimbleServerTransportConnection" where
  "openedConnection E self transportConnectionIndex requestId x w =
     transportConnectionInit E ((transportConnections self ! unat x)\<lparr>tcTransportIndex := transportConnectionIndex,
       tcConnectedFromConnectRequestId := requestId, tcSecret := fst (secureRandomUInt64 E w), tcId := x\<rparr>)
       (suMaxGameStateOctetCount (serverSetup self))"

text \<open>A concrete server around a session, its connections not in use.\<close>

definition demoServer :: "demo NimbleServerLocalParties \<Rightarrow> demo NimbleServerParticipants \<Rightarrow> demo NimbleServer" where
  "demoServer lps ps =
     \<lparr>transportConnections = map (\<lambda>i. (demoConnection None)\<lparr>tcTransportConnectionId := of_nat i\<rparr>) [0..<64],
      localParties = lps, game = demoGame ps, applicationVersion = DNum 1,
      serverSetup = \<lparr>suApplicationVersion = DNum 1, suHasMemory = True, suHasBlobAllocator = True,
        suMaxConnectionCount = 2, suMaxParticipantCount = 3, suMaxSingleParticipantStepOctetCount = 32,
        suMaxParticipantCountForEachConnection = 1, suMaxWaitingForReconnectTicks = 1240,
        suMaxGameStateOctetCount = 4, suNow = 0, suTargetTickTimeMs = 16\<rparr>,
      statsCounter = 0, authoritativeStepsPerSecondStat = DNone,
      updateQuality = \<lparr>lastTimeMs = 0, measuredDeltaTimeMsStat = \<lparr>statsAvg = 0, statsAvgIsSet = False, statsData = DNone\<rparr>,
        averageTickTimeFailedInARow = 0, deltaTickTimeFailedInARow = 0, targetTimeMs = 200,
        uqState = NimbleServerUpdateQualityStateWorking\<rparr>,
      freeTransportConnectionList = emptyRing\<lparr>cbData := replicate 64 5, cbHead := 1\<rparr>, sessionSecret = 0\<rparr>"

section \<open>Lemmas\<close>

lemma findExistingFrom_first:
  "i + n \<le> length tcs \<Longrightarrow>
   findExistingConnectionFrom tcs t r i n = Some (firstFrom (\<lambda>j. sameRequest t r (tcs ! j)) i n)"
  by (induction n arbitrary: i) (auto simp: sameRequest_def)

lemma findExisting_cases:
  assumes "connectionTable self"
  obtains (none) "findExistingConnectionRequest self t r = Some None"
      "\<forall>j < length (transportConnections self). \<not> sameRequest t r (transportConnections self ! j)"
    | (found) i where "findExistingConnectionRequest self t r = Some (Some i)"
      "i < length (transportConnections self)" "sameRequest t r (transportConnections self ! i)"
proof -
  let ?n = "length (transportConnections self)" and ?P = "\<lambda>j. sameRequest t r (transportConnections self ! j)"
  have f: "findExistingConnectionRequest self t r = Some (firstFrom ?P 0 ?n)"
    using assms by (simp add: findExistingConnectionRequest_def findExistingFrom_first connectionTable_def)
  show ?thesis
  proof (cases "firstFrom ?P 0 ?n")
    case None
    with f show ?thesis by (intro none) (auto simp: firstFrom_None)
  next
    case (Some i)
    with f firstFrom_Some [OF Some] show ?thesis by (intro found) auto
  qed
qed

lemma openedConnection_fields:
  "tcIsUsed (openedConnection E self t r x w)" "tcId (openedConnection E self t r x w) = x"
  "tcAssignedParty (openedConnection E self t r x w) = tcAssignedParty (transportConnections self ! unat x)"
  "tcTransportConnectionId (openedConnection E self t r x w) = tcTransportConnectionId (transportConnections self ! unat x)"
  "sameRequest t r (openedConnection E self t r x w)" "tcUseDebugStreams (openedConnection E self t r x w)"
  "tcSecret (openedConnection E self t r x w) = fst (secureRandomUInt64 E w)"
  "tcPhase (openedConnection E self t r x w) = NbTransportConnectionPhaseIdle"
  "tcGameState (openedConnection E self t r x w) = nimbleServerGameStateInit E
     (tcGameState (transportConnections self ! unat x)) (suMaxGameStateOctetCount (serverSetup self))"
  by (simp_all add: openedConnection_def transportConnectionInit_def sameRequest_def)

lemma openConnection_run:
  assumes "connectionTable self" "cbContents (freeTransportConnectionList self) = x # xs"
    "clogMode E = ClogOff \<or> freeConnections self"
  shows "\<exists>fl. openConnection E self t opts w = Some (unat x, self\<lparr>freeTransportConnectionList := fl,
      transportConnections := (transportConnections self)[unat x :=
        openedConnection E self t (crClientRequestId opts) x w]\<rparr>, snd (secureRandomUInt64 E w)) \<and>
    cbInvar fl \<and> cbContents fl = xs \<and> unat x < length (transportConnections self)"
proof -
  from assms obtain fl where fl: "nimbleServerCircularBufferRead (clogMode E) (freeTransportConnectionList self) = Some (x, fl)"
    "cbInvar fl" "cbContents fl = xs"
    using ring.deq_spec [of "freeTransportConnectionList self" x xs "clogMode E"] by (auto simp: connectionTable_def)
  have x: "unat x < length (transportConnections self)" using assms by (simp add: connectionTable_def)
  have "clogErrorIf (clogMode E) (tcIsUsed (transportConnections self ! unat x)) = Some ()"
    using assms(2,3) by (auto simp: freeConnections_def)
  with fl x have "openConnection E self t opts w = Some (unat x, self\<lparr>freeTransportConnectionList := fl,
      transportConnections := (transportConnections self)[unat x :=
        openedConnection E self t (crClientRequestId opts) x w]\<rparr>, snd (secureRandomUInt64 E w))"
    by (simp add: openConnection_def openedConnection_def transportConnectionInit_def Let_def split_beta)
  with fl x show ?thesis by blast
qed

lemma connectionTable_update:
  assumes "connectionTable self" "i < length (transportConnections self)"
    "tcTransportConnectionId tc = tcTransportConnectionId (transportConnections self ! i)"
    "cbInvar fl" "set (cbContents fl) \<subseteq> set (cbContents (freeTransportConnectionList self))"
  shows "connectionTable (self\<lparr>freeTransportConnectionList := fl,
    transportConnections := (transportConnections self)[i := tc]\<rparr>)"
  using assms by (auto simp: connectionTable_def nth_list_update)

lemma respondConnected_run:
  "i < length (transportConnections self) \<Longrightarrow> respondConnected E self i r out =
   Some (nimbleSerializeServerOutConnectResponse E out (connectionAnswer (transportConnections self ! i) r))"
  by (simp add: respondConnected_def connectionAnswer_def)

text \<open>The handler of a connect request, on each of its branches.\<close>

lemma reqConnect_rejects:
  assumes "nimbleSerializeServerInConnectRequest E s = (e, opts, s1)"
    "e < 0 \<or> \<not> nimbleSerializeVersionIsEqual E (applicationVersion self) (crApplicationVersion opts)"
  shows "nimbleServerReqConnect E self t s out w = Some (NimbleServerErrSerializeVersion, self, s1, out, w)"
  using assms by (auto simp: nimbleServerReqConnect_def)

lemma reqConnect_existing:
  fixes E :: "'x Env" and self :: "'x NimbleServer" and out :: "'x FldOutStream" and w :: 'x and t :: u8
    and opts :: "'x NimbleSerializeConnectRequest"
  assumes "nimbleSerializeServerInConnectRequest E s = (e, opts, s1)" "0 \<le> e"
    "nimbleSerializeVersionIsEqual E (applicationVersion self) (crApplicationVersion opts)"
    "findExistingConnectionRequest self t (crClientRequestId opts) = Some (Some i)"
    "i < length (transportConnections self)"
  defines "answer \<equiv> nimbleSerializeServerOutConnectResponse E out
    (connectionAnswer (transportConnections self ! i) (crClientRequestId opts))"
  shows "nimbleServerReqConnect E self t s out w = Some (fst answer, self, s1, snd answer, w)"
  using assms(1-5) by (simp add: nimbleServerReqConnect_def respondConnected_run answer_def split_beta)

lemma reqConnect_full:
  assumes "nimbleSerializeServerInConnectRequest E s = (e, opts, s1)" "0 \<le> e"
    "nimbleSerializeVersionIsEqual E (applicationVersion self) (crApplicationVersion opts)"
    "findExistingConnectionRequest self t (crClientRequestId opts) = Some None"
    "connectionTable self" "cbContents (freeTransportConnectionList self) = []"
  shows "nimbleServerReqConnect E self t s out w = Some (NimbleServerErrSerialize, self, s1, out, w)"
  using assms by (simp add: nimbleServerReqConnect_def connectionTable_def cbIsEmpty_iff)

lemma reqConnect_opens:
  fixes E :: "'x Env" and self :: "'x NimbleServer" and out :: "'x FldOutStream" and w :: 'x and t :: u8
    and opts :: "'x NimbleSerializeConnectRequest"
  assumes "nimbleSerializeServerInConnectRequest E s = (e, opts, s1)" "0 \<le> e"
    "nimbleSerializeVersionIsEqual E (applicationVersion self) (crApplicationVersion opts)"
    "findExistingConnectionRequest self t (crClientRequestId opts) = Some None"
    "connectionTable self" "cbContents (freeTransportConnectionList self) = x # xs"
    "clogMode E = ClogOff \<or> freeConnections self"
  defines "tc' \<equiv> openedConnection E self t (crClientRequestId opts) x w"
  defines "answer \<equiv> nimbleSerializeServerOutConnectResponse E out (connectionAnswer tc' (crClientRequestId opts))"
  shows "\<exists>fl. nimbleServerReqConnect E self t s out w = Some (fst answer, self\<lparr>freeTransportConnectionList := fl,
      transportConnections := (transportConnections self)[unat x := tc']\<rparr>, s1, snd answer, snd (secureRandomUInt64 E w)) \<and>
    cbContents fl = xs \<and> unat x < length (transportConnections self) \<and>
    connectionTable (self\<lparr>freeTransportConnectionList := fl,
      transportConnections := (transportConnections self)[unat x := tc']\<rparr>)"
proof -
  from openConnection_run [OF assms(5-7), of t opts w] obtain fl where
    open_run: "openConnection E self t opts w = Some (unat x, self\<lparr>freeTransportConnectionList := fl,
      transportConnections := (transportConnections self)[unat x := tc']\<rparr>, snd (secureRandomUInt64 E w))"
    and fl: "cbInvar fl" "cbContents fl = xs" "unat x < length (transportConnections self)"
    unfolding tc'_def by blast
  have "\<not> nimbleServerCircularBufferIsEmpty (freeTransportConnectionList self)"
    using assms(5,6) by (simp add: connectionTable_def cbIsEmpty_iff)
  with assms(1-4) open_run fl(3)
  have "nimbleServerReqConnect E self t s out w = Some (fst answer, self\<lparr>freeTransportConnectionList := fl,
      transportConnections := (transportConnections self)[unat x := tc']\<rparr>, s1, snd answer, snd (secureRandomUInt64 E w))"
    by (simp add: nimbleServerReqConnect_def respondConnected_run answer_def split_beta)
  moreover have "connectionTable (self\<lparr>freeTransportConnectionList := fl,
      transportConnections := (transportConnections self)[unat x := tc']\<rparr>)"
    using assms(6) fl by (intro connectionTable_update [OF assms(5)]) (auto simp: tc'_def openedConnection_fields)
  ultimately show ?thesis using fl by blast
qed

lemma demoServer_table:
  "connectionTable (demoServer lps ps)" "freeConnections (demoServer lps ps)"
  "cbContents (freeTransportConnectionList (demoServer lps ps)) = [5]"
proof -
  let ?ring = "emptyRing\<lparr>cbData := replicate 64 5, cbHead := 1\<rparr>"
  have ring: "cbInvar ?ring" by (simp add: emptyRing_def cbInvar_def)
  have "cbContents ?ring = [5]" by (simp add: cbContents_def cbLength_def emptyRing_def)
  then show "cbContents (freeTransportConnectionList (demoServer lps ps)) = [5]"
    and "freeConnections (demoServer lps ps)"
    by (simp_all add: demoServer_def freeConnections_def demoConnection_def)
  with ring show "connectionTable (demoServer lps ps)"
    by (simp add: connectionTable_def demoServer_def NIMBLE_NIMBLE_SERVER_MAX_TRANSPORT_CONNECTIONS_def)
qed

lemma demo_connectRequest:
  "nimbleSerializeServerInConnectRequest (demoEnv c) (demoInInit [1, 9]) =
    (0, \<lparr>crApplicationVersion = DNum 1, crClientRequestId = 9, crUseDebugStreams = False\<rparr>, (demoInInit [1, 9])\<lparr>inPos := 2\<rparr>)"
  by (simp add: demoEnv_def demoInConnect_def demoRead8_def demoInInit_def)

section \<open>Properties\<close>

text \<open>
  C8. A connect request on every branch. A request that cannot be read, or that comes from another
  application version, changes nothing. A request the server has already accepted from that transport
  is answered with the connection it was given, and changes nothing. With no free connection the
  request is refused and changes nothing. Otherwise the first free connection, and no other, is
  initialised for the request and leaves the free list; the answer names it and carries debug streams
  as switched on, whatever the client asked for.
\<close>

theorem reqConnect_all_branches:
  assumes "connectionTable self" "nimbleSerializeServerInConnectRequest E s = (e, opts, s1)"
    and "clogMode E = ClogOff \<or> freeConnections self"
  shows "if e < 0 \<or> \<not> nimbleSerializeVersionIsEqual E (applicationVersion self) (crApplicationVersion opts) then
      nimbleServerReqConnect E self t s out w = Some (NimbleServerErrSerializeVersion, self, s1, out, w)
    else if \<exists>tc \<in> set (transportConnections self). sameRequest t (crClientRequestId opts) tc then
      \<exists>tc \<in> set (transportConnections self). sameRequest t (crClientRequestId opts) tc \<and>
        (\<exists>r out'. nimbleSerializeServerOutConnectResponse E out (connectionAnswer tc (crClientRequestId opts)) = (r, out') \<and>
           nimbleServerReqConnect E self t s out w = Some (r, self, s1, out', w))
    else case cbContents (freeTransportConnectionList self) of
      [] \<Rightarrow> nimbleServerReqConnect E self t s out w = Some (NimbleServerErrSerialize, self, s1, out, w)
    | x # xs \<Rightarrow> \<exists>r out' fl tc. nimbleSerializeServerOutConnectResponse E out \<lparr>crsUseDebugStreams = True,
          crsConnectionId = x, crsResponseToRequestId = crClientRequestId opts\<rparr> = (r, out') \<and>
        nimbleServerReqConnect E self t s out w = Some (r, self\<lparr>freeTransportConnectionList := fl,
          transportConnections := (transportConnections self)[unat x := tc]\<rparr>, s1, out', snd (secureRandomUInt64 E w)) \<and>
        sameRequest t (crClientRequestId opts) tc \<and> tcId tc = x \<and> tcSecret tc = fst (secureRandomUInt64 E w) \<and>
        unat x < 64 \<and> cbContents fl = xs \<and> connectionTable (self\<lparr>freeTransportConnectionList := fl,
          transportConnections := (transportConnections self)[unat x := tc]\<rparr>)"
proof (cases "e < 0 \<or> \<not> nimbleSerializeVersionIsEqual E (applicationVersion self) (crApplicationVersion opts)")
  case True
  with reqConnect_rejects [OF assms(2), of self t out w] show ?thesis by simp
next
  case False
  then have ok: "0 \<le> e" "nimbleSerializeVersionIsEqual E (applicationVersion self) (crApplicationVersion opts)" by auto
  from assms(1) show ?thesis
  proof (cases rule: findExisting_cases [of _ t "crClientRequestId opts"])
    case (found i)
    then have i: "transportConnections self ! i \<in> set (transportConnections self)" by simp
    then have ex: "\<exists>tc \<in> set (transportConnections self). sameRequest t (crClientRequestId opts) tc"
      using found(3) by blast
    obtain r out' where a: "nimbleSerializeServerOutConnectResponse E out
        (connectionAnswer (transportConnections self ! i) (crClientRequestId opts)) = (r, out')" by fastforce
    have "nimbleServerReqConnect E self t s out w = Some (r, self, s1, out', w)"
      using reqConnect_existing [OF assms(2) ok found(1,2), of out w] a by simp
    with a i found(3) show ?thesis unfolding if_not_P [OF False] if_P [OF ex] by blast
  next
    case none
    then have new: "\<not> (\<exists>tc \<in> set (transportConnections self). sameRequest t (crClientRequestId opts) tc)"
      by (auto simp: in_set_conv_nth)
    show ?thesis
    proof (cases "cbContents (freeTransportConnectionList self)")
      case Nil
      with False new reqConnect_full [OF assms(2) ok none(1) assms(1) Nil, of out w] show ?thesis by simp
    next
      case (Cons x xs)
      let ?tc = "openedConnection E self t (crClientRequestId opts) x w"
      have ans: "connectionAnswer ?tc (crClientRequestId opts) = \<lparr>crsUseDebugStreams = True,
          crsConnectionId = x, crsResponseToRequestId = crClientRequestId opts\<rparr>"
        by (simp add: connectionAnswer_def openedConnection_fields)
      obtain r out' where a: "nimbleSerializeServerOutConnectResponse E out \<lparr>crsUseDebugStreams = True,
          crsConnectionId = x, crsResponseToRequestId = crClientRequestId opts\<rparr> = (r, out')" by fastforce
      from reqConnect_opens [OF assms(2) ok none(1) assms(1) Cons assms(3), of out w] obtain fl where
        new_run: "nimbleServerReqConnect E self t s out w = Some (r, self\<lparr>freeTransportConnectionList := fl,
            transportConnections := (transportConnections self)[unat x := ?tc]\<rparr>, s1, out', snd (secureRandomUInt64 E w))"
        "cbContents fl = xs" "unat x < length (transportConnections self)"
        "connectionTable (self\<lparr>freeTransportConnectionList := fl,
            transportConnections := (transportConnections self)[unat x := ?tc]\<rparr>)"
        unfolding ans a fst_conv snd_conv by blast
      have "length (transportConnections self) = 64"
        using assms(1) by (simp add: connectionTable_def NIMBLE_NIMBLE_SERVER_MAX_TRANSPORT_CONNECTIONS_def)
      with new_run a show ?thesis
        unfolding if_not_P [OF False] if_not_P [OF new] Cons list.case
        by (intro exI [of _ r] exI [of _ out'] exI [of _ fl] exI [of _ ?tc] conjI)
          (simp_all only: openedConnection_fields)
    qed
  qed
qed

theorem reqConnect_all_branches_witness:
  "\<forall>lps ps. \<exists>self' s' out' w'. nimbleServerReqConnect (demoEnv ClogFatal) (demoServer lps ps) 3 (demoInInit [1, 9])
      (demoOutInit 100) (DWorld 0 [] []) = Some (0, self', s', out', w') \<and>
    sameRequest 3 9 (transportConnections self' ! 5) \<and> cbContents (freeTransportConnectionList self') = []"
proof (intro allI)
  fix lps ps
  let ?S = "demoServer lps ps"
  have new: "\<not> (\<exists>tc \<in> set (transportConnections ?S). sameRequest 3 9 tc)"
    by (auto simp: demoServer_def sameRequest_def demoConnection_def)
  have ver: "nimbleSerializeVersionIsEqual (demoEnv ClogFatal) (applicationVersion ?S) (DNum 1)"
    and out: "nimbleSerializeServerOutConnectResponse (demoEnv ClogFatal) (demoOutInit 100) r =
      (0, (demoOutInit 100)\<lparr>outPos := 3, outOctets := [1, crsConnectionId r, crsResponseToRequestId r]\<rparr>)"
    and len: "length (transportConnections ?S) = 64" for r
    by (simp_all add: demoServer_def demoEnv_def demoOutConnect_def demoOutInit_def demoWriteOctets_def)
  show "\<exists>self' s' out' w'. nimbleServerReqConnect (demoEnv ClogFatal) ?S 3 (demoInInit [1, 9])
      (demoOutInit 100) (DWorld 0 [] []) = Some (0, self', s', out', w') \<and>
    sameRequest 3 9 (transportConnections self' ! 5) \<and> cbContents (freeTransportConnectionList self') = []"
    using reqConnect_all_branches [OF demoServer_table(1) [of lps ps] demo_connectRequest, of ClogFatal 3 "demoOutInit 100" "DWorld 0 [] []"]
      demoServer_table(2)
    by (auto simp: demoServer_table(3) new ver out len)
qed

text \<open>
  C26. A retransmitted connect request does not use up another connection: after a request was
  accepted, the same request from the same transport leaves the server as it is and gets the same
  answer, whatever else the client repeats.
\<close>

theorem reqConnect_repeated:
  assumes "connectionTable self" "clogMode E = ClogOff \<or> freeConnections self"
    and "nimbleSerializeServerInConnectRequest E s = (e, opts, s1)"
    and "nimbleServerReqConnect E self t s out w = Some (r, self', s1, out', w')"
    and "r \<noteq> NimbleServerErrSerializeVersion" "cbContents (freeTransportConnectionList self) \<noteq> []"
  shows "\<exists>answer. (r, out') = nimbleSerializeServerOutConnectResponse E out answer \<and>
    (\<forall>out2 w2. \<exists>r2 out2'. nimbleSerializeServerOutConnectResponse E out2 answer = (r2, out2') \<and>
       nimbleServerReqConnect E self' t s out2 w2 = Some (r2, self', s1, out2', w2))"
proof -
  have ok: "0 \<le> e" "nimbleSerializeVersionIsEqual E (applicationVersion self) (crApplicationVersion opts)"
    using reqConnect_rejects [OF assms(3), of self t out w] assms(4,5) by force+
  have again: "\<exists>r2 out2'. nimbleSerializeServerOutConnectResponse E out2
        (connectionAnswer (transportConnections self' ! i) (crClientRequestId opts)) = (r2, out2') \<and>
       nimbleServerReqConnect E self' t s out2 w2 = Some (r2, self', s1, out2', w2)"
    if "findExistingConnectionRequest self' t (crClientRequestId opts) = Some (Some i)"
      "i < length (transportConnections self')" "applicationVersion self' = applicationVersion self" for i out2 w2
    using reqConnect_existing [OF assms(3) ok(1) _ that(1,2), of out2 w2] ok(2) that(3) by (metis prod.collapse)
  from assms(1) show ?thesis
  proof (cases rule: findExisting_cases [of _ t "crClientRequestId opts"])
    case (found i)
    with reqConnect_existing [OF assms(3) ok found(1,2), of out w] assms(4) have "self' = self"
      "(r, out') = nimbleSerializeServerOutConnectResponse E out
        (connectionAnswer (transportConnections self ! i) (crClientRequestId opts))" by auto
    with again found show ?thesis by blast
  next
    case none
    from assms(6) obtain x xs where xs: "cbContents (freeTransportConnectionList self) = x # xs"
      by (cases "cbContents (freeTransportConnectionList self)") auto
    let ?tc = "openedConnection E self t (crClientRequestId opts) x w"
    from reqConnect_opens [OF assms(3) ok none(1) assms(1) xs assms(2), of out w] assms(4) obtain fl where
      self': "self' = self\<lparr>freeTransportConnectionList := fl,
        transportConnections := (transportConnections self)[unat x := ?tc]\<rparr>"
      and r: "(r, out') = nimbleSerializeServerOutConnectResponse E out (connectionAnswer ?tc (crClientRequestId opts))"
      and x: "unat x < length (transportConnections self)" and tab: "connectionTable self'" by auto
    have only: "i = unat x" if "i < length (transportConnections self')"
      "sameRequest t (crClientRequestId opts) (transportConnections self' ! i)" for i
      using that none(2) self' by (cases "i = unat x") auto
    from tab have "findExistingConnectionRequest self' t (crClientRequestId opts) = Some (Some (unat x))"
    proof (cases rule: findExisting_cases [of _ t "crClientRequestId opts"])
      case none
      moreover have "unat x < length (transportConnections self')" using x self' by simp
      ultimately have "\<not> sameRequest t (crClientRequestId opts) (transportConnections self' ! unat x)" by blast
      then show ?thesis using x self' by (simp add: openedConnection_fields)
    next
      case (found i)
      with only show ?thesis by blast
    qed
    with again [of "unat x"] self' x r show ?thesis by auto
  qed
qed

theorem reqConnect_repeated_witness:
  "\<forall>lps ps. \<exists>self' s' out' w'. nimbleServerReqConnect (demoEnv ClogFatal) (demoServer lps ps) 3 (demoInInit [1, 9])
      (demoOutInit 100) (DWorld 0 [] []) = Some (0, self', s', out', w') \<and>
    (\<exists>out2. nimbleServerReqConnect (demoEnv ClogFatal) self' 3 (demoInInit [1, 9])
      (demoOutInit 100) (DWorld 0 [] []) = Some (0, self', s', out2, DWorld 0 [] []))"
proof (intro allI)
  fix lps ps
  let ?E = "demoEnv ClogFatal" and ?S = "demoServer lps ps" and ?w = "DWorld 0 [] []" and ?out = "demoOutInit 100"
  let ?s1 = "(demoInInit [1, 9])\<lparr>inPos := 2\<rparr>"
  have out: "fst (nimbleSerializeServerOutConnectResponse ?E ?out r) = 0" for r
    by (simp add: demoEnv_def demoOutConnect_def demoOutInit_def demoWriteOctets_def)
  have none: "findExistingConnectionRequest ?S 3 9 = Some None"
    using demoServer_table(1) [of lps ps]
    by (cases rule: findExisting_cases [of _ 3 9]) (auto simp: demoServer_def sameRequest_def demoConnection_def)
  have ver: "nimbleSerializeVersionIsEqual ?E (applicationVersion ?S) (DNum 1)"
    by (simp add: demoServer_def demoEnv_def)
  obtain self' out' w' where run: "nimbleServerReqConnect ?E ?S 3 (demoInInit [1, 9]) ?out ?w = Some (0, self', ?s1, out', w')"
    using reqConnect_opens [OF demo_connectRequest _ _ _ demoServer_table(1,3), of ClogFatal lps ps 3 ?out ?w]
      none ver demoServer_table(2) by (auto simp: out)
  have "\<exists>answer. (0, out') = nimbleSerializeServerOutConnectResponse ?E ?out answer \<and>
    (\<forall>out2 w2. \<exists>r2 out2'. nimbleSerializeServerOutConnectResponse ?E out2 answer = (r2, out2') \<and>
       nimbleServerReqConnect ?E self' 3 (demoInInit [1, 9]) out2 w2 = Some (r2, self', ?s1, out2', w2))"
    using reqConnect_repeated [OF demoServer_table(1) _ demo_connectRequest run] demoServer_table(2)
    by (simp add: NimbleServerErrSerializeVersion_def demoServer_table(3))
  then obtain r2 out2' answer where "nimbleSerializeServerOutConnectResponse ?E ?out answer = (r2, out2')"
      "nimbleServerReqConnect ?E self' 3 (demoInInit [1, 9]) ?out ?w = Some (r2, self', ?s1, out2', ?w)" by blast
  with out [of answer] run show "\<exists>self' s' out' w'. nimbleServerReqConnect ?E ?S 3 (demoInInit [1, 9])
      ?out ?w = Some (0, self', s', out', w') \<and>
    (\<exists>out2. nimbleServerReqConnect ?E self' 3 (demoInInit [1, 9]) ?out ?w = Some (0, self', s', out2, ?w))" by auto
qed

end
