(* ===== verification/ReqJoin.thy ===== *)
theory ReqJoin
  imports ReqConnect
begin

text \<open>
  The handler of a join request, \<open>src/src/lib/req_game_join.c\<close>. The connection a request comes from is
  its position in the array of connections. The pointer to the party that the C code leaves through
  \<open>outConnection\<close> is \<open>None\<close> when it was never assigned, \<open>Some None\<close> when it was set to null.
\<close>

section \<open>Operations\<close>

text \<open>The last part of \<open>joinLocalParty\<close>: a party for the players of the request.\<close>

definition joinNewParty ::
  "'x Env \<Rightarrow> 'x NimbleServerLocalParties \<Rightarrow> 'x NimbleServerParticipants \<Rightarrow> nat \<Rightarrow> NimbleSerializeJoinGameRequest \<Rightarrow>
   StepId \<Rightarrow> (int \<times> nat option option \<times> 'x NimbleServerLocalParties \<times> 'x NimbleServerParticipants) option" where
  "joinNewParty E lps ps transportConnection joinRequest latestAuthoritativeStepId = do {
     (errorCode, created, lps1, ps1) \<leftarrow> nimbleServerLocalPartiesCreate E lps ps
       (Some transportConnection) (jrPlayers joinRequest) latestAuthoritativeStepId (jrPlayerCount joinRequest);
     if errorCode < 0 then Some (errorCode, Some None, lps1, ps1)
     else Some (0, Some created, lps1, ps1)
   }"

definition joinLocalParty ::
  "'x Env \<Rightarrow> 'x NimbleServerTransportConnection list \<Rightarrow> 'x NimbleServerLocalParties \<Rightarrow> 'x NimbleServerParticipants \<Rightarrow>
   nat \<Rightarrow> NimbleSerializeJoinGameRequest \<Rightarrow> StepId \<Rightarrow>
   (int \<times> nat option option \<times> 'x NimbleServerLocalParties \<times> 'x NimbleServerParticipants) option" where
  "joinLocalParty E tcs lps ps transportConnection joinRequest latestAuthoritativeStepId = do {
     tc \<leftarrow> readAt tcs transportConnection;
     foundConnection \<leftarrow> nimbleServerLocalPartiesFindPartyForTransport tcs lps (ucast (tcTransportConnectionId tc));
     case foundConnection of
       Some i \<Rightarrow> Some (0, Some (Some i), lps, ps)
     | None \<Rightarrow> (case jrJoinGameType joinRequest of
         NimbleSerializeJoinGameTypeNoSecret \<Rightarrow>
           joinNewParty E lps ps transportConnection joinRequest latestAuthoritativeStepId
       | NimbleSerializeJoinGameTypePartySecret \<Rightarrow> do {
           i \<leftarrow> nimbleServerLocalPartiesFindParty (clogMode E) lps (jrPartyId joinRequest);
           foundPartyFromSecret \<leftarrow> readAt (parties lps) i;
           if participantReferenceCount (lpReferences foundPartyFromSecret) \<noteq> jrPlayerCount joinRequest
           then Some (0, None, lps, ps)
           else Some (0, Some (Some i), lps\<lparr>parties := (parties lps)[i :=
             nimbleServerLocalPartyRejoin E foundPartyFromSecret (Some transportConnection)]\<rparr>, ps)
         })
   }"

definition nimbleServerReadAndJoinParticipants ::
  "'x Env \<Rightarrow> 'x NimbleServerTransportConnection list \<Rightarrow> 'x NimbleServerLocalParties \<Rightarrow> 'x NimbleServerParticipants \<Rightarrow>
   nat \<Rightarrow> NimbleSerializeJoinGameRequest \<Rightarrow> StepId \<Rightarrow>
   (int \<times> nat option option \<times> 'x NimbleServerLocalParties \<times> 'x NimbleServerParticipants) option" where
  "nimbleServerReadAndJoinParticipants E tcs lps ps transportConnection request latestAuthoritativeStepId = do {
     (errorCode, party, lps1, ps1) \<leftarrow>
       joinLocalParty E tcs lps ps transportConnection request latestAuthoritativeStepId;
     Some (if errorCode < 0 then errorCode else 0, party, lps1, ps1)
   }"

text \<open>The loop that fills the participants of the response, from position \<open>i\<close>, \<open>n\<close> to go.\<close>

fun joinedParticipantsFrom ::
  "'x NimbleServerParticipant list \<Rightarrow> NimbleServerParticipantReferences \<Rightarrow> nat \<Rightarrow> nat \<Rightarrow>
   NimbleSerializeJoinGameResponseParticipant list option" where
  "joinedParticipantsFrom ps refs i 0 = Some []"
| "joinedParticipantsFrom ps refs i (Suc n) = do {
     (k, sourceParticipant) \<leftarrow> derefParticipant ps refs i;
     rest \<leftarrow> joinedParticipantsFrom ps refs (Suc i) n;
     Some (\<lparr>jpParticipantId = pId sourceParticipant, jpLocalIndex = pLocalIndex sourceParticipant\<rparr> # rest)
   }"

definition nimbleServerReqGameJoin ::
  "'x Env \<Rightarrow> 'x NimbleServer \<Rightarrow> nat \<Rightarrow> 'x FldInStream \<Rightarrow> 'x FldOutStream \<Rightarrow>
   (int \<times> 'x NimbleServer \<times> 'x FldInStream \<times> 'x FldOutStream) option" where
  "nimbleServerReqGameJoin E self transportConnection inStream outStream = do {
     let (err, request, inStream1) = nimbleSerializeServerInJoinGameRequest E inStream;
     if err < 0 then Some (err, self, inStream1, outStream)
     else do {
       (errorCode, out, lps1, ps1) \<leftarrow> nimbleServerReadAndJoinParticipants E (transportConnections self)
         (localParties self) (gameParticipants (game self)) transportConnection request
         (expectedWriteId (authoritativeSteps (game self)));
       let self1 = self\<lparr>localParties := lps1, game := (game self)\<lparr>gameParticipants := ps1\<rparr>\<rparr>;
       if errorCode < 0 then do {
         let (ignored, outStream1) =
           nimbleSerializeServerOutJoinGameOutOfParticipantSlotsResponse E outStream (jrNonce request);
         Some (errorCode, self1, inStream1, outStream1)
       }
       else do {
         assigned \<leftarrow> out;
         party \<leftarrow> assigned;
         pl \<leftarrow> modifyAt (parties lps1) party (\<lambda>p. p\<lparr>lpWaitingForReconnectMaxTimer :=
                 suMaxWaitingForReconnectTicks (serverSetup self)\<rparr>);
         tcs \<leftarrow> modifyAt (transportConnections self) transportConnection (\<lambda>tc. tc\<lparr>tcAssignedParty := Some party\<rparr>);
         p \<leftarrow> readAt pl party;
         responseParticipants \<leftarrow> joinedParticipantsFrom (participants ps1) (lpReferences p) 0
           (unat (participantReferenceCount (lpReferences p)));
         let (ignored, outStream1) = nimbleSerializeServerOutJoinGameResponse E outStream
           \<lparr>jsPartyId = lpId p, jsSessionSecret = sessionSecret self,
            jsParticipantCount = participantReferenceCount (lpReferences p), jsParticipants = responseParticipants\<rparr>;
         Some (0, self1\<lparr>localParties := lps1\<lparr>parties := pl\<rparr>, transportConnections := tcs\<rparr>, inStream1, outStream1)
       }
     }
   }"

section \<open>Specification\<close>

text \<open>
  \<open>serverWf\<close> is the invariant of the server: the connection table, the session of parties and
  participants, and the pointers between the two: the party a connection serves and the connection a
  party is served by are places of their arrays. The state a connection offers fits its buffer, and its
  id is a position.
\<close>

definition connectionWf :: "'x NimbleServerLocalParties \<Rightarrow> 'x NimbleServerTransportConnection \<Rightarrow> bool" where
  "connectionWf lps tc \<longleftrightarrow> servesParty lps tc \<and> gsInvar (tcGameState tc) \<and>
     unat (tcId tc) < NIMBLE_NIMBLE_SERVER_MAX_TRANSPORT_CONNECTIONS"

definition serverWf :: "'x NimbleServer \<Rightarrow> bool" where
  "serverWf self \<longleftrightarrow> connectionTable self \<and> sessionWf (localParties self) (gameParticipants (game self)) \<and>
     (\<forall>tc \<in> set (transportConnections self). connectionWf (localParties self) tc) \<and>
     (\<forall>p \<in> set (parties (localParties self)). \<forall>t. lpTransportConnection p = Some t \<longrightarrow>
        t < length (transportConnections self))"

text \<open>
  The parties a search by connection looks at: the first \<open>partiesCount\<close> places of the array.
\<close>

definition partySearched :: "'x NimbleServer \<Rightarrow> nat \<Rightarrow> nat \<Rightarrow> bool" where
  "partySearched self i j \<longleftrightarrow> j \<in> usedParties (localParties self) \<and>
     lpTransportConnection (parties (localParties self) ! j) = Some i"

definition joinAnswer ::
  "u64 \<Rightarrow> 'x NimbleServerParticipant list \<Rightarrow> 'x NimbleServerLocalParty \<Rightarrow> NimbleSerializeJoinGameResponse" where
  "joinAnswer secret ps p = \<lparr>jsPartyId = lpId p, jsSessionSecret = secret,
     jsParticipantCount = participantReferenceCount (lpReferences p),
     jsParticipants = map (\<lambda>i. let q = ps ! the (participantReferences (lpReferences p) ! i)
         in \<lparr>jpParticipantId = pId q, jpLocalIndex = pLocalIndex q\<rparr>)
       [0..<unat (participantReferenceCount (lpReferences p))]\<rparr>"

text \<open>What a join that found or made the party at \<open>j\<close> leaves of the server.\<close>

definition partyAssigned :: "'x NimbleServer \<Rightarrow> nat \<Rightarrow> nat \<Rightarrow> 'x NimbleServer" where
  "partyAssigned self i j =
     self\<lparr>localParties := (localParties self)\<lparr>parties := (parties (localParties self))[j :=
            (parties (localParties self) ! j)\<lparr>lpWaitingForReconnectMaxTimer :=
              suMaxWaitingForReconnectTicks (serverSetup self)\<rparr>]\<rparr>,
          transportConnections := (transportConnections self)[i :=
            (transportConnections self ! i)\<lparr>tcAssignedParty := Some j\<rparr>]\<rparr>"

text \<open>The server once the party at \<open>j\<close> is served by connection \<open>i\<close> again.\<close>

definition partyRejoined :: "'x Env \<Rightarrow> 'x NimbleServer \<Rightarrow> nat \<Rightarrow> nat \<Rightarrow> 'x NimbleServer" where
  "partyRejoined E self i j = self\<lparr>localParties := (localParties self)\<lparr>parties := (parties (localParties self))[j :=
     nimbleServerLocalPartyRejoin E (parties (localParties self) ! j) (Some i)]\<rparr>\<rparr>"

text \<open>A request for a new party of one player, the only number the code supports.\<close>

definition plainJoin :: "NimbleSerializeJoinGameRequest \<Rightarrow> bool" where
  "plainJoin jr \<longleftrightarrow> jrJoinGameType jr = NimbleSerializeJoinGameTypeNoSecret \<and> jrPlayerCount jr = 1 \<and> jrPlayers jr \<noteq> []"

section \<open>Lemmas\<close>

lemma serverWf_len:
  "serverWf self \<Longrightarrow> length (transportConnections self) = 64"
  by (simp add: serverWf_def connectionTable_def NIMBLE_NIMBLE_SERVER_MAX_TRANSPORT_CONNECTIONS_def)

lemma serverWf_session:
  "serverWf self \<Longrightarrow> sessionWf (localParties self) (gameParticipants (game self))"
  by (simp add: serverWf_def)

lemma partiesCount_le: "partiesShape lps \<Longrightarrow> unat (partiesCount lps) \<le> length (parties lps)"
  using card_mono [OF _ usedParties_subset [of lps]] by (simp add: partiesShape_def)

lemma findPartyForTransportFrom_first:
  assumes "i + n \<le> length ps" "\<forall>p \<in> set ps. \<forall>t. lpTransportConnection p = Some t \<longrightarrow> t < length tcs"
  shows "findPartyForTransportFrom tcs ps ident i n = Some (firstFrom (\<lambda>j. lpIsUsed (ps ! j) \<and>
    (\<exists>t. lpTransportConnection (ps ! j) = Some t \<and> ucast (tcTransportConnectionId (tcs ! t)) = ident)) i n)"
  using assms(1)
proof (induction n arbitrary: i)
  case (Suc n)
  have "ps ! i \<in> set ps" using Suc.prems by simp
  with assms(2) have "t < length tcs" if "lpTransportConnection (ps ! i) = Some t" for t using that by blast
  with Suc show ?case by (auto split: option.splits)
qed simp

lemma connectionId_inj:
  assumes "connectionTable self" "i < length (transportConnections self)" "t < length (transportConnections self)"
  shows "(ucast (tcTransportConnectionId (transportConnections self ! t)) :: u32) =
      ucast (tcTransportConnectionId (transportConnections self ! i)) \<longleftrightarrow> t = i"
proof -
  have "unat (tcTransportConnectionId (transportConnections self ! i)) = i"
    "unat (tcTransportConnectionId (transportConnections self ! t)) = t"
    using assms by (auto simp: connectionTable_def)
  moreover have "unat (ucast x :: u32) = unat x" for x :: u8
    by (simp add: unsigned_ucast_eq take_bit_nat_eq_self less_trans [OF unat_u8_bound])
  ultimately show ?thesis by metis
qed

lemma findPartyForTransport_run:
  assumes wf: "serverWf self" and i: "i < length (transportConnections self)"
  shows "nimbleServerLocalPartiesFindPartyForTransport (transportConnections self) (localParties self)
      (ucast (tcTransportConnectionId (transportConnections self ! i))) =
    Some (firstFrom (partySearched self i) 0 (unat (partiesCount (localParties self))))"
proof -
  let ?lps = "localParties self" and ?tcs = "transportConnections self"
  have link: "\<forall>p \<in> set (parties ?lps). \<forall>t. lpTransportConnection p = Some t \<longrightarrow> t < length ?tcs"
    using wf by (simp add: serverWf_def)
  have le: "0 + unat (partiesCount ?lps) \<le> length (parties ?lps)"
    using partiesCount_le [of ?lps] wf by (simp add: serverWf_def sessionWf_def)
  have "partySearched self i j \<longleftrightarrow> lpIsUsed (parties ?lps ! j) \<and> (\<exists>t. lpTransportConnection (parties ?lps ! j) = Some t \<and>
      (ucast (tcTransportConnectionId (?tcs ! t)) :: u32) = ucast (tcTransportConnectionId (?tcs ! i)))"
    if "j < unat (partiesCount ?lps)" for j
  proof -
    have j: "j < length (parties ?lps)" using that le by simp
    then have "t < length ?tcs" if "lpTransportConnection (parties ?lps ! j) = Some t" for t
      using that link nth_mem by blast
    moreover have "connectionTable self" using wf by (simp add: serverWf_def)
    ultimately show ?thesis using connectionId_inj [of self i] i j
      by (auto simp: partySearched_def usedParties_def)
  qed
  then show ?thesis
    unfolding nimbleServerLocalPartiesFindPartyForTransport_def findPartyForTransportFrom_first [OF le link]
    by (intro arg_cong [of _ _ Some] firstFrom_cong) simp
qed

lemma joinedParticipants_run:
  "refsValid (length ps) refs \<Longrightarrow> i + n \<le> unat (participantReferenceCount refs) \<Longrightarrow>
   joinedParticipantsFrom ps refs i n = Some (map (\<lambda>i. let q = ps ! the (participantReferences refs ! i)
     in \<lparr>jpParticipantId = pId q, jpLocalIndex = pLocalIndex q\<rparr>) [i..<i + n])"
proof (induction n arbitrary: i)
  case (Suc n)
  obtain k where k: "derefParticipant ps refs i = Some (k, ps ! k)" "participantReferences refs ! i = Some k"
    using refsValid_deref [OF Suc.prems(1), of i] Suc.prems(2) by auto
  have "[i..<i + Suc n] = i # [Suc i..<Suc i + n]" by (simp add: upt_rec)
  with k Suc.IH [of "Suc i"] Suc.prems show ?case by (simp add: Let_def)
qed simp

text \<open>The handler once the party is known.\<close>

lemma reqGameJoin_assigns:
  fixes self :: "'x NimbleServer" and E :: "'x Env"
  assumes "nimbleSerializeServerInJoinGameRequest E s = (e, jr, s1)" "0 \<le> e"
    "joinLocalParty E (transportConnections self) (localParties self) (gameParticipants (game self)) i jr
       (expectedWriteId (authoritativeSteps (game self))) = Some (0, Some (Some j), lps1, ps1)"
    "i < length (transportConnections self)" "j < length (parties lps1)"
    "refsValid (length (participants ps1)) (lpReferences (parties lps1 ! j))"
  shows "nimbleServerReqGameJoin E self i s out = Some (0,
    partyAssigned (self\<lparr>localParties := lps1, game := (game self)\<lparr>gameParticipants := ps1\<rparr>\<rparr>) i j, s1,
    snd (nimbleSerializeServerOutJoinGameResponse E out
      (joinAnswer (sessionSecret self) (participants ps1) (parties lps1 ! j))))"
  using assms joinedParticipants_run [OF assms(6), of 0 "unat (participantReferenceCount (lpReferences (parties lps1 ! j)))"]
  by (simp add: nimbleServerReqGameJoin_def nimbleServerReadAndJoinParticipants_def partyAssigned_def joinAnswer_def
      split_beta Let_def)

lemma reqGameJoin_fails:
  assumes "nimbleSerializeServerInJoinGameRequest E s = (e, jr, s1)" "0 \<le> e"
    "joinLocalParty E (transportConnections self) (localParties self) (gameParticipants (game self)) i jr
       (expectedWriteId (authoritativeSteps (game self))) = Some (errorCode, out0, lps1, ps1)" "errorCode < 0"
  shows "nimbleServerReqGameJoin E self i s out = Some (errorCode,
    self\<lparr>localParties := lps1, game := (game self)\<lparr>gameParticipants := ps1\<rparr>\<rparr>, s1,
    snd (nimbleSerializeServerOutJoinGameOutOfParticipantSlotsResponse E out (jrNonce jr)))"
  using assms by (simp add: nimbleServerReqGameJoin_def nimbleServerReadAndJoinParticipants_def split_beta Let_def)

lemma connectionTable_frame [simp]:
  "connectionTable (self\<lparr>localParties := lps\<rparr>) = connectionTable self"
  "connectionTable (self\<lparr>game := g\<rparr>) = connectionTable self"
  "connectionTable (self\<lparr>authoritativeStepsPerSecondStat := st\<rparr>) = connectionTable self"
  "connectionTable (self\<lparr>statsCounter := n\<rparr>) = connectionTable self"
  "connectionTable (self\<lparr>updateQuality := q\<rparr>) = connectionTable self"
  by (simp_all add: connectionTable_def)

lemma serverWf_connection:
  assumes "serverWf self" "i < length (transportConnections self)"
    "tcTransportConnectionId tc = tcTransportConnectionId (transportConnections self ! i)"
    "connectionWf (localParties self) tc"
  shows "serverWf (self\<lparr>transportConnections := (transportConnections self)[i := tc]\<rparr>)"
proof -
  let ?S = "self\<lparr>transportConnections := (transportConnections self)[i := tc]\<rparr>"
  have tab: "connectionTable self" using assms(1) by (simp add: serverWf_def)
  then have "cbInvar (freeTransportConnectionList self)" by (simp add: connectionTable_def)
  from connectionTable_update [OF tab assms(2,3) this] have "connectionTable ?S" by simp
  moreover have "\<forall>c \<in> set (transportConnections ?S). connectionWf (localParties self) c"
    using assms(1,4) set_update_subset_insert [of "transportConnections self" i tc] unfolding serverWf_def by auto
  ultimately show ?thesis using assms(1) by (simp add: serverWf_def)
qed

lemma serverWf_parties:
  assumes "serverWf self" "sessionWf lps' (gameParticipants g')"
    "length (parties lps') = length (parties (localParties self))"
    "\<And>j t. j < length (parties lps') \<Longrightarrow> lpTransportConnection (parties lps' ! j) = Some t \<Longrightarrow>
       t < length (transportConnections self)"
  shows "serverWf (self\<lparr>localParties := lps', game := g'\<rparr>)"
proof -
  let ?S = "self\<lparr>localParties := lps', game := g'\<rparr>"
  have "connectionTable ?S" using assms(1) by (simp add: serverWf_def)
  moreover have "\<forall>tc \<in> set (transportConnections self). connectionWf lps' tc"
    using assms(1,3) by (simp add: serverWf_def connectionWf_def servesParty_def)
  moreover have "\<forall>p \<in> set (parties lps'). \<forall>t. lpTransportConnection p = Some t \<longrightarrow> t < length (transportConnections self)"
    using assms(4) by (metis in_set_conv_nth)
  ultimately show ?thesis using assms(2) by (simp add: serverWf_def)
qed

lemma serverWf_link:
  "serverWf self \<Longrightarrow> j < length (parties (localParties self)) \<Longrightarrow>
   lpTransportConnection (parties (localParties self) ! j) = Some t \<Longrightarrow> t < length (transportConnections self)"
  by (auto simp: serverWf_def)

lemma serverWf_party:
  assumes wf: "serverWf self" and j: "j < length (parties (localParties self))"
    and p: "lpIsUsed p = lpIsUsed (parties (localParties self) ! j)"
      "lpReferences p = lpReferences (parties (localParties self) ! j)"
      "\<And>t. lpTransportConnection p = Some t \<Longrightarrow> t < length (transportConnections self)"
  shows "serverWf (self\<lparr>localParties := (localParties self)\<lparr>parties := (parties (localParties self))[j := p]\<rparr>\<rparr>)"
proof -
  let ?lps = "(localParties self)\<lparr>parties := (parties (localParties self))[j := p]\<rparr>"
  have "sessionWf ?lps (gameParticipants (game self))"
    by (rule sessionWf_party [OF serverWf_session [OF wf] j p(1,2)])
  moreover have "t < length (transportConnections self)"
    if "m < length (parties ?lps)" "lpTransportConnection (parties ?lps ! m) = Some t" for m t
    using that p(3) serverWf_link [OF wf] by (cases "m = j") auto
  ultimately have "serverWf (self\<lparr>localParties := ?lps, game := game self\<rparr>)"
    by (intro serverWf_parties [OF wf]) simp_all
  then show ?thesis by simp
qed

lemma partyAssigned_wf:
  assumes wf: "serverWf self" and i: "i < length (transportConnections self)"
    and j: "j < length (parties (localParties self))"
  shows "serverWf (partyAssigned self i j)"
proof -
  let ?p = "(parties (localParties self) ! j)\<lparr>lpWaitingForReconnectMaxTimer :=
    suMaxWaitingForReconnectTicks (serverSetup self)\<rparr>"
  let ?S = "self\<lparr>localParties := (localParties self)\<lparr>parties := (parties (localParties self))[j := ?p]\<rparr>\<rparr>"
  have "serverWf ?S" using serverWf_link [OF wf j] by (intro serverWf_party [OF wf j]) simp_all
  moreover have "connectionWf (localParties self) (transportConnections self ! i)" using wf i by (simp add: serverWf_def)
  ultimately have "serverWf (?S\<lparr>transportConnections := (transportConnections ?S)[i :=
      (transportConnections ?S ! i)\<lparr>tcAssignedParty := Some j\<rparr>]\<rparr>)"
    using i j by (intro serverWf_connection) (simp_all add: connectionWf_def servesParty_def)
  then show ?thesis by (simp add: partyAssigned_def)
qed

lemma usedParties_assigned:
  assumes "j < length (parties lps)"
  shows "usedParties (localParties (partyAssigned (self\<lparr>localParties := lps, game := g\<rparr>) i j)) = usedParties lps"
  using assms by (auto simp: partyAssigned_def usedParties_set) (auto simp: usedParties_def)

text \<open>Which party a join request leads to.\<close>

lemma joinLocalParty_found:
  assumes "serverWf self" "i < length (transportConnections self)"
    "firstFrom (partySearched self i) 0 (unat (partiesCount (localParties self))) = Some j"
  shows "joinLocalParty E (transportConnections self) (localParties self) ps i jr stepId =
    Some (0, Some (Some j), localParties self, ps)"
  using assms(2,3) findPartyForTransport_run [OF assms(1,2)] by (simp add: joinLocalParty_def)

lemma joinLocalParty_unknown:
  assumes "serverWf self" "i < length (transportConnections self)"
    "firstFrom (partySearched self i) 0 (unat (partiesCount (localParties self))) = None"
  shows "joinLocalParty E (transportConnections self) (localParties self) ps i jr stepId =
    (case jrJoinGameType jr of
       NimbleSerializeJoinGameTypeNoSecret \<Rightarrow> joinNewParty E (localParties self) ps i jr stepId
     | NimbleSerializeJoinGameTypePartySecret \<Rightarrow> do {
         j \<leftarrow> nimbleServerLocalPartiesFindParty (clogMode E) (localParties self) (jrPartyId jr);
         p \<leftarrow> readAt (parties (localParties self)) j;
         if participantReferenceCount (lpReferences p) \<noteq> jrPlayerCount jr
         then Some (0, None, localParties self, ps)
         else Some (0, Some (Some j), (localParties self)\<lparr>parties := (parties (localParties self))[j :=
           nimbleServerLocalPartyRejoin E p (Some i)]\<rparr>, ps)
       })"
  using assms(2,3) findPartyForTransport_run [OF assms(1,2)] by (simp add: joinLocalParty_def)

lemma searched_in_range:
  assumes "serverWf self" "firstFrom (partySearched self i) 0 n = Some j"
  shows "j < length (parties (localParties self))" "partySearched self i j"
    "refsValid (length (participants (gameParticipants (game self)))) (lpReferences (parties (localParties self) ! j))"
proof -
  show s: "partySearched self i j" using firstFrom_Some [OF assms(2)] by blast
  then show j: "j < length (parties (localParties self))" by (simp add: partySearched_def usedParties_def)
  show "refsValid (length (participants (gameParticipants (game self)))) (lpReferences (parties (localParties self) ! j))"
    using serverWf_session [OF assms(1)] j by (simp add: sessionWf_def partiesRefs_def)
qed

lemma localPartiesCreate_outOfMemory:
  "partiesShape lps \<Longrightarrow> usedParties lps = {0..<length (parties lps)} \<Longrightarrow>
   nimbleServerLocalPartiesCreate E lps ps tc players stepId n = Some (NimbleServerErrOutOfParticipantMemory, None, lps, ps)"
  by (simp add: nimbleServerLocalPartiesCreate_def findFreeParty_full)

text \<open>The handler for a connection that is already served, and for one that needs a new party.\<close>

lemma reqGameJoin_served:
  assumes wf: "serverWf self" and i: "i < length (transportConnections self)"
    and rd: "nimbleSerializeServerInJoinGameRequest E s = (e, jr, s1)" "0 \<le> e"
    and found: "firstFrom (partySearched self i) 0 (unat (partiesCount (localParties self))) = Some j"
  shows "nimbleServerReqGameJoin E self i s out = Some (0, partyAssigned self i j, s1,
    snd (nimbleSerializeServerOutJoinGameResponse E out (joinAnswer (sessionSecret self)
      (participants (gameParticipants (game self))) (parties (localParties self) ! j))))"
  using reqGameJoin_assigns [OF rd joinLocalParty_found [OF wf i found] i searched_in_range(1,3) [OF wf found], of out]
  by simp

lemma reqGameJoin_creates:
  fixes E :: "'x Env" and self :: "'x NimbleServer"
  assumes wf: "serverWf self" and i: "i < length (transportConnections self)"
    and rd: "nimbleSerializeServerInJoinGameRequest E s = (e, jr, s1)" "0 \<le> e"
    and jr: "jrJoinGameType jr = NimbleSerializeJoinGameTypeNoSecret" "jrPlayerCount jr = 1" "jrPlayers jr = player # players"
    and none: "firstFrom (partySearched self i) 0 (unat (partiesCount (localParties self))) = None"
    and free: "usedParties (localParties self) \<noteq> {0..<length (parties (localParties self))}"
    and room: "card (usedIds (gameParticipants (game self))) < unat (participantCapacity (gameParticipants (game self)))"
  defines "j \<equiv> LEAST m. m \<notin> usedParties (localParties self)"
  shows "\<exists>k self' lps'. nimbleServerReqGameJoin E self i s out = Some (0, self', s1,
      snd (nimbleSerializeServerOutJoinGameResponse E out \<lparr>jsPartyId = of_nat j, jsSessionSecret = sessionSecret self,
        jsParticipantCount = 1, jsParticipants = [\<lparr>jpParticipantId = of_nat k, jpLocalIndex = player\<rparr>]\<rparr>)) \<and>
    serverWf self' \<and> j < length (parties (localParties self)) \<and> j \<notin> usedParties (localParties self) \<and>
    usedParties (localParties self') = insert j (usedParties (localParties self)) \<and>
    (\<forall>m. m \<noteq> j \<longrightarrow> parties (localParties self') ! m = parties (localParties self) ! m) \<and>
    lpTransportConnection (parties (localParties self') ! j) = Some i \<and>
    tcAssignedParty (transportConnections self' ! i) = Some j \<and>
    k \<notin> usedIds (gameParticipants (game self)) \<and> k < length (participants (gameParticipants (game self))) \<and>
    usedIds (gameParticipants (game self')) = insert k (usedIds (gameParticipants (game self))) \<and>
    participants (gameParticipants (game self')) = (participants (gameParticipants (game self)))[k :=
      joinedParticipant E (participants (gameParticipants (game self)) ! k) j
        (expectedWriteId (authoritativeSteps (game self))) player (of_nat k)] \<and>
    self' = partyAssigned (self\<lparr>localParties := lps', game := (game self)\<lparr>gameParticipants :=
      gameParticipants (game self')\<rparr>\<rparr>) i j \<and>
    sessionWf lps' (gameParticipants (game self')) \<and> refIndices (lpReferences (parties (localParties self') ! j)) = {k} \<and>
    joinAnswer (sessionSecret self) (participants (gameParticipants (game self'))) (parties (localParties self') ! j) =
      \<lparr>jsPartyId = of_nat j, jsSessionSecret = sessionSecret self,
        jsParticipantCount = 1, jsParticipants = [\<lparr>jpParticipantId = of_nat k, jpLocalIndex = player\<rparr>]\<rparr> \<and>
    length (parties lps') = length (parties (localParties self))"
proof -
  let ?lps = "localParties self" and ?ps = "gameParticipants (game self)"
    and ?step = "expectedWriteId (authoritativeSteps (game self))"
  obtain k lps' ps' where c: "nimbleServerLocalPartiesCreate E ?lps ?ps (Some i) (player # players) ?step 1 = Some (0, Some j, lps', ps')"
    and c1: "sessionWf lps' ps'" and c2: "j < length (parties ?lps)" "j \<notin> usedParties ?lps"
    and c3: "usedParties lps' = insert j (usedParties ?lps)"
    and c4: "\<forall>m. m \<noteq> j \<longrightarrow> parties lps' ! m = parties ?lps ! m"
    and c5: "lpId (parties lps' ! j) = of_nat j" "lpTransportConnection (parties lps' ! j) = Some i"
    and c6: "refIndices (lpReferences (parties lps' ! j)) = {k}"
    and c7: "\<exists>rs. lpReferences (parties lps' ! j) = \<lparr>participantReferenceCount = 1, participantReferences = Some k # rs\<rparr>"
    and c8: "k < length (participants ?ps)" "k \<notin> usedIds ?ps" "usedIds ps' = insert k (usedIds ?ps)"
    and c9: "participants ps' = (participants ?ps)[k := joinedParticipant E (participants ?ps ! k) j ?step player (of_nat k)]"
    and c10: "length (parties lps') = length (parties ?lps)"
    using localPartiesCreate_room [OF serverWf_session [OF wf] free room, of E "Some i" player players ?step, folded j_def]
    by (elim exE conjE) (rule that, (assumption | rule exI)+)
  let ?S = "self\<lparr>localParties := lps', game := (game self)\<lparr>gameParticipants := ps'\<rparr>\<rparr>"
  have join: "joinLocalParty E (transportConnections self) ?lps ?ps i jr ?step = Some (0, Some (Some j), lps', ps')"
    by (simp add: joinLocalParty_unknown [OF wf i none] jr joinNewParty_def c)
  have valid: "refsValid (length (participants ps')) (lpReferences (parties lps' ! j))"
    using c1 c2(1) c10 by (simp add: sessionWf_def partiesRefs_def)
  have "t < length (transportConnections self)"
    if "m < length (parties lps')" "lpTransportConnection (parties lps' ! m) = Some t" for m t
    using that c4 c5(2) c10 i serverWf_link [OF wf] by (cases "m = j") auto
  then have "serverWf ?S" using c1 c10 by (intro serverWf_parties [OF wf]) simp_all
  then have wf': "serverWf (partyAssigned ?S i j)" using i c2(1) c10 by (intro partyAssigned_wf) simp_all
  have ans: "joinAnswer (sessionSecret self) (participants ps') (parties lps' ! j) = \<lparr>jsPartyId = of_nat j,
      jsSessionSecret = sessionSecret self, jsParticipantCount = 1,
      jsParticipants = [\<lparr>jpParticipantId = of_nat k, jpLocalIndex = player\<rparr>]\<rparr>"
    using c7 c8(1) by (auto simp: joinAnswer_def c5(1) c9 joinedParticipant_def Let_def)
  have run: "nimbleServerReqGameJoin E self i s out = Some (0, partyAssigned ?S i j, s1,
      snd (nimbleSerializeServerOutJoinGameResponse E out \<lparr>jsPartyId = of_nat j, jsSessionSecret = sessionSecret self,
        jsParticipantCount = 1, jsParticipants = [\<lparr>jpParticipantId = of_nat k, jpLocalIndex = player\<rparr>]\<rparr>))"
    using reqGameJoin_assigns [OF rd join i _ valid, of out] c2(1) c10 ans by simp
  have used: "usedParties (localParties (partyAssigned ?S i j)) = usedParties lps'"
    using c2(1) c10 by (intro usedParties_assigned) simp
  have ps': "gameParticipants (game (partyAssigned ?S i j)) = ps'" by (simp add: partyAssigned_def)
  have j: "lpTransportConnection (parties (localParties (partyAssigned ?S i j)) ! j) = Some i"
    "refIndices (lpReferences (parties (localParties (partyAssigned ?S i j)) ! j)) = {k}"
    using c2(1) c5(2) c6 c10 by (simp_all add: partyAssigned_def)
  have others: "\<forall>m. m \<noteq> j \<longrightarrow> parties (localParties (partyAssigned ?S i j)) ! m = parties ?lps ! m"
    using c4 by (simp add: partyAssigned_def)
  have tc: "tcAssignedParty (transportConnections (partyAssigned ?S i j) ! i) = Some j"
    using i by (simp add: partyAssigned_def)
  have ans': "joinAnswer (sessionSecret self) (participants ps') (parties (localParties (partyAssigned ?S i j)) ! j) =
      joinAnswer (sessionSecret self) (participants ps') (parties lps' ! j)"
    using c2(1) c10 by (simp add: partyAssigned_def joinAnswer_def)
  show ?thesis
    by (intro exI [of _ k] exI [of _ "partyAssigned ?S i j"] exI [of _ lps'] conjI)
      (unfold ps', (rule run wf' c2 used [unfolded c3] others j tc c8 c9 c1
        trans [OF ans' ans] c10 refl)+)
qed

lemma reqGameJoin_full:
  assumes wf: "serverWf self" and i: "i < length (transportConnections self)"
    and rd: "nimbleSerializeServerInJoinGameRequest E s = (e, jr, s1)" "0 \<le> e"
    and jr: "jrJoinGameType jr = NimbleSerializeJoinGameTypeNoSecret" "jrPlayerCount jr = 1"
    and none: "firstFrom (partySearched self i) 0 (unat (partiesCount (localParties self))) = None"
  shows "usedParties (localParties self) = {0..<length (parties (localParties self))} \<Longrightarrow>
      \<exists>out'. nimbleServerReqGameJoin E self i s out = Some (NimbleServerErrOutOfParticipantMemory, self, s1, out')"
    and "usedParties (localParties self) \<noteq> {0..<length (parties (localParties self))} \<Longrightarrow>
      card (usedIds (gameParticipants (game self))) = unat (participantCapacity (gameParticipants (game self))) \<Longrightarrow>
      \<exists>lps' out'. nimbleServerReqGameJoin E self i s out = Some (NimbleServerErrSessionFull, self\<lparr>localParties := lps'\<rparr>, s1, out') \<and>
        serverWf (self\<lparr>localParties := lps'\<rparr>) \<and> usedParties lps' = usedParties (localParties self) \<and>
        (\<forall>m \<in> usedParties lps'. parties lps' ! m = parties (localParties self) ! m)"
proof -
  let ?lps = "localParties self" and ?ps = "gameParticipants (game self)"
  let ?step = "expectedWriteId (authoritativeSteps (game self))"
  have ses: "sessionWf ?lps ?ps" and shape: "partiesShape ?lps"
    using serverWf_session [OF wf] by (simp_all add: sessionWf_def)
  {
    assume "usedParties ?lps = {0..<length (parties ?lps)}"
    from localPartiesCreate_outOfMemory [OF shape this]
    have "joinLocalParty E (transportConnections self) ?lps ?ps i jr ?step =
        Some (NimbleServerErrOutOfParticipantMemory, Some None, ?lps, ?ps)"
      by (simp add: joinLocalParty_unknown [OF wf i none] jr joinNewParty_def NimbleServerErrOutOfParticipantMemory_def)
    from reqGameJoin_fails [OF rd this, of out]
    show "\<exists>out'. nimbleServerReqGameJoin E self i s out = Some (NimbleServerErrOutOfParticipantMemory, self, s1, out')"
      by (simp add: NimbleServerErrOutOfParticipantMemory_def)
  next
    assume free: "usedParties ?lps \<noteq> {0..<length (parties ?lps)}" and full: "card (usedIds ?ps) = unat (participantCapacity ?ps)"
    define j where "j = (LEAST m. m \<notin> usedParties ?lps)"
    let ?lps' = "?lps\<lparr>parties := (parties ?lps)[j := (parties ?lps ! j)\<lparr>lpId := of_nat j\<rparr>]\<rparr>"
    note j = findFreeParty_room(1,2) [OF shape free, folded j_def]
    have used: "usedParties ?lps' = usedParties ?lps"
      using j by (auto simp: usedParties_set) (auto simp: usedParties_def)
    have "joinLocalParty E (transportConnections self) ?lps ?ps i jr ?step =
        Some (NimbleServerErrSessionFull, Some None, ?lps', ?ps)"
      using localPartiesCreate_sessionFull(1) [OF ses free full, of E "Some i", folded j_def]
      by (simp add: joinLocalParty_unknown [OF wf i none] jr joinNewParty_def NimbleServerErrSessionFull_def)
    from reqGameJoin_fails [OF rd this, of out]
    have "\<exists>out'. nimbleServerReqGameJoin E self i s out = Some (NimbleServerErrSessionFull, self\<lparr>localParties := ?lps'\<rparr>, s1, out')"
      by (simp add: NimbleServerErrSessionFull_def)
    moreover have "serverWf (self\<lparr>localParties := ?lps'\<rparr>)"
      using serverWf_link [OF wf j(1)] by (intro serverWf_party [OF wf j(1)]) simp_all
    moreover have "\<forall>m \<in> usedParties ?lps'. parties ?lps' ! m = parties ?lps ! m"
      unfolding used using j(2) by (metis NimbleServerLocalParties.select_convs(1) NimbleServerLocalParties.surjective
          NimbleServerLocalParties.update_convs(1) nth_list_update_neq)
    ultimately show "\<exists>lps' out'. nimbleServerReqGameJoin E self i s out = Some (NimbleServerErrSessionFull, self\<lparr>localParties := lps'\<rparr>, s1, out') \<and>
        serverWf (self\<lparr>localParties := lps'\<rparr>) \<and> usedParties lps' = usedParties ?lps \<and>
        (\<forall>m \<in> usedParties lps'. parties lps' ! m = parties ?lps ! m)"
      using used by blast
  }
qed

lemma participants_room:
  assumes "sessionWf lps ps" "card (usedIds ps) \<noteq> unat (participantCapacity ps)"
  shows "card (usedIds ps) < unat (participantCapacity ps)"
proof -
  have "usedIds ps \<subseteq> {0..<length (participants ps)}" by (auto simp: usedIds_def)
  then have "card (usedIds ps) \<le> length (participants ps)" using card_mono [of "{0..<length (participants ps)}"] by simp
  with assms show ?thesis by (simp add: sessionWf_def participantsWf_def participantsShape_def)
qed

text \<open>The cases of a join request for a new party, in the order the code tries them.\<close>

lemma reqGameJoin_cases:
  assumes "serverWf self"
  obtains (served) j where "firstFrom (partySearched self i) 0 (unat (partiesCount (localParties self))) = Some j"
    | (outOfMemory) "firstFrom (partySearched self i) 0 (unat (partiesCount (localParties self))) = None"
        "usedParties (localParties self) = {0..<length (parties (localParties self))}"
    | (full) "firstFrom (partySearched self i) 0 (unat (partiesCount (localParties self))) = None"
        "usedParties (localParties self) \<noteq> {0..<length (parties (localParties self))}"
        "card (usedIds (gameParticipants (game self))) = unat (participantCapacity (gameParticipants (game self)))"
    | (room) "firstFrom (partySearched self i) 0 (unat (partiesCount (localParties self))) = None"
        "usedParties (localParties self) \<noteq> {0..<length (parties (localParties self))}"
        "card (usedIds (gameParticipants (game self))) < unat (participantCapacity (gameParticipants (game self)))"
  using participants_room [OF serverWf_session [OF assms]]
  by (cases "firstFrom (partySearched self i) 0 (unat (partiesCount (localParties self)))") blast+

text \<open>Handling a join request that the code supports never breaks the server.\<close>

lemma reqGameJoin_wf:
  assumes wf: "serverWf self" and i: "i < length (transportConnections self)"
    and rd: "nimbleSerializeServerInJoinGameRequest E s = (e, jr, s1)" and jr: "0 \<le> e \<longrightarrow> plainJoin jr"
  shows "\<exists>r self' out'. nimbleServerReqGameJoin E self i s out = Some (r, self', s1, out') \<and> serverWf self'"
proof (cases "e < 0")
  case True
  with rd wf show ?thesis by (simp add: nimbleServerReqGameJoin_def)
next
  case False
  then have e: "0 \<le> e" by simp
  with jr obtain player players where p: "jrJoinGameType jr = NimbleSerializeJoinGameTypeNoSecret" "jrPlayerCount jr = 1"
    "jrPlayers jr = player # players" by (auto simp: plainJoin_def neq_Nil_conv)
  from wf show ?thesis
  proof (cases rule: reqGameJoin_cases [of _ i])
    case (served j)
    from reqGameJoin_served [OF wf i rd e served] partyAssigned_wf [OF wf i searched_in_range(1) [OF wf served]]
    show ?thesis by blast
  next
    case outOfMemory
    from reqGameJoin_full(1) [OF wf i rd e p(1,2) outOfMemory] wf show ?thesis by blast
  next
    case full
    from reqGameJoin_full(2) [OF wf i rd e p(1,2) full] show ?thesis by blast
  next
    case room
    from reqGameJoin_creates [OF wf i rd e p room] show ?thesis by blast
  qed
qed

text \<open>The handler for a connection that takes its party up again.\<close>

lemma rejoined_fields:
  fixes E :: "'x Env" and q :: "'x NimbleServerLocalParty" and i :: nat
  defines "p \<equiv> nimbleServerLocalPartyRejoin E q (Some i)"
  shows "lpIsUsed p = lpIsUsed q" "lpReferences p = lpReferences q" "lpTransportConnection p = Some i"
    "lpState p = NimbleServerLocalPartyStateNormal" "lpWaitingForReconnectTimer p = 0" "lpId p = lpId q"
  by (simp_all add: p_def nimbleServerLocalPartyRejoin_def nimbleServerLocalPartyReInit_def)

lemma reqGameJoin_rejoins:
  assumes wf: "serverWf self" and i: "i < length (transportConnections self)"
    and rd: "nimbleSerializeServerInJoinGameRequest E s = (e, jr, s1)" "0 \<le> e"
    and jr: "jrJoinGameType jr = NimbleSerializeJoinGameTypePartySecret" "unat (jrPartyId jr) = j"
    and none: "firstFrom (partySearched self i) 0 (unat (partiesCount (localParties self))) = None"
    and j: "j < length (parties (localParties self))"
    and count: "participantReferenceCount (lpReferences (parties (localParties self) ! j)) = jrPlayerCount jr"
  shows "nimbleServerReqGameJoin E self i s out = Some (0, partyAssigned (partyRejoined E self i j) i j, s1,
      snd (nimbleSerializeServerOutJoinGameResponse E out (joinAnswer (sessionSecret self)
        (participants (gameParticipants (game self))) (parties (localParties self) ! j))))"
    and "serverWf (partyAssigned (partyRejoined E self i j) i j)"
proof -
  let ?lps = "localParties self" and ?ps = "gameParticipants (game self)"
  let ?p = "nimbleServerLocalPartyRejoin E (parties ?lps ! j) (Some i)"
  let ?lps' = "?lps\<lparr>parties := (parties ?lps)[j := ?p]\<rparr>"
  have find: "nimbleServerLocalPartiesFindParty (clogMode E) ?lps (jrPartyId jr) = Some j"
    using serverWf_session [OF wf] jr(2) j
    by (simp add: nimbleServerLocalPartiesFindParty_def sessionWf_def partiesShape_def)
  have join: "joinLocalParty E (transportConnections self) ?lps ?ps i jr
      (expectedWriteId (authoritativeSteps (game self))) = Some (0, Some (Some j), ?lps', ?ps)"
    using jr(1) j count find by (simp add: joinLocalParty_unknown [OF wf i none])
  have valid: "refsValid (length (participants ?ps)) (lpReferences (parties ?lps' ! j))"
    using serverWf_session [OF wf] j by (simp add: sessionWf_def partiesRefs_def rejoined_fields)
  show "nimbleServerReqGameJoin E self i s out = Some (0, partyAssigned (partyRejoined E self i j) i j, s1,
      snd (nimbleSerializeServerOutJoinGameResponse E out (joinAnswer (sessionSecret self) (participants ?ps) (parties ?lps ! j))))"
    using reqGameJoin_assigns [OF rd join i _ valid, of out] j
    by (simp add: joinAnswer_def partyRejoined_def rejoined_fields)
  have "serverWf (partyRejoined E self i j)"
    unfolding partyRejoined_def using i by (intro serverWf_party [OF wf j]) (simp_all add: rejoined_fields)
  from partyAssigned_wf [OF this, of i j] i j show "serverWf (partyAssigned (partyRejoined E self i j) i j)"
    by (simp add: partyRejoined_def)
qed

lemma partyAssigned_again:
  assumes "i < length (transportConnections self)" "j < length (parties (localParties self))"
  shows "partyAssigned (partyAssigned self i j) i j = partyAssigned self i j"
    "joinAnswer secret ps (parties (localParties (partyAssigned self i j)) ! j) =
       joinAnswer secret ps (parties (localParties self) ! j)"
    "sessionSecret (partyAssigned self i j) = sessionSecret self" "game (partyAssigned self i j) = game self"
    "partiesCount (localParties (partyAssigned self i j)) = partiesCount (localParties self)"
  using assms by (simp_all add: partyAssigned_def joinAnswer_def)

lemma partySearched_assigned:
  assumes "j < length (parties (localParties self))"
  shows "partySearched (partyAssigned self i j) a b \<longleftrightarrow> partySearched self a b"
  using assms by (cases "b = j") (auto simp: partySearched_def partyAssigned_def usedParties_def nth_list_update)

lemma demoServer_wf:
  assumes "sessionWf lps ps" "\<forall>p \<in> set (parties lps). \<forall>t. lpTransportConnection p = Some t \<longrightarrow> t < 64"
  shows "serverWf (demoServer lps ps)"
proof -
  have "\<forall>tc \<in> set (transportConnections (demoServer lps ps)). connectionWf lps tc"
    by (auto simp: demoServer_def demoConnection_def connectionWf_def servesParty_def gsInvar_def
        NIMBLE_NIMBLE_SERVER_MAX_TRANSPORT_CONNECTIONS_def)
  moreover have "length (transportConnections (demoServer lps ps)) = 64" "localParties (demoServer lps ps) = lps"
    "gameParticipants (game (demoServer lps ps)) = ps"
    by (simp_all add: demoServer_def demoGame_def)
  ultimately show ?thesis using assms demoServer_table(1) [of lps ps] by (simp add: serverWf_def)
qed

lemma blankServer:
  "\<exists>ps. serverWf (demoServer blankParties ps) \<and> usedIds ps = {} \<and> participantCapacity ps = 4"
proof -
  obtain ps :: "demo NimbleServerParticipants" where ps: "participantsWf ps" "usedIds ps = {}" "participantCapacity ps = 4"
    using demoRoster by blast
  have "\<forall>p \<in> set (parties blankParties). lpTransportConnection p = None"
    by (auto simp: blankParties_def nimbleServerLocalPartiesInit_def nimbleServerLocalPartyInit_def
        nimbleServerLocalPartyReInit_def Let_def)
  then have "serverWf (demoServer blankParties ps)" using blankParties_wf(1) [OF ps(1,2)] by (intro demoServer_wf) auto
  with ps show ?thesis by blast
qed

lemma blank_used: "usedParties blankParties = {}" "parties blankParties \<noteq> []"
  by (auto simp: blankParties_def nimbleServerLocalPartiesInit_def usedParties_def nimbleServerLocalPartyInit_def
      nimbleServerLocalPartyReInit_def Let_def)

lemma unserved:
  assumes "\<forall>m \<in> usedParties (localParties self). lpTransportConnection (parties (localParties self) ! m) \<noteq> Some i"
  shows "firstFrom (partySearched self i) 0 n = None"
  using assms by (auto simp: firstFrom_None partySearched_def)

lemma demoParties:
  "\<exists>(lps :: demo NimbleServerLocalParties) ps. serverWf (demoServer lps ps) \<and>
     participantReferenceCount (lpReferences (parties lps ! 0)) = 1 \<and> length (parties lps) = 2 \<and>
     usedParties lps = {0} \<and> (\<forall>m \<in> usedParties lps. lpTransportConnection (parties lps ! m) \<noteq> Some 3)"
proof -
  obtain ps :: "demo NimbleServerParticipants" where ps: "participantsWf ps" "usedIds ps = {}" "participantCapacity ps = 4"
    using demoRoster by blast
  note b = blankParties_wf [OF ps(1,2)]
  have none: "\<forall>p \<in> set (parties blankParties). lpTransportConnection p = None"
    by (auto simp: blankParties_def nimbleServerLocalPartiesInit_def nimbleServerLocalPartyInit_def
        nimbleServerLocalPartyReInit_def Let_def)
  have least: "(LEAST j. j \<notin> usedParties blankParties) = 0" by (simp add: b(2) Least_equality)
  obtain k lps' ps' rs where c: "sessionWf lps' ps'" "length (parties lps') = 2"
    "\<forall>j. j \<noteq> 0 \<longrightarrow> parties lps' ! j = parties blankParties ! j" "lpTransportConnection (parties lps' ! 0) = Some 7"
    "lpReferences (parties lps' ! 0) = \<lparr>participantReferenceCount = 1, participantReferences = Some k # rs\<rparr>"
    "usedParties lps' = {0}"
    using localPartiesCreate_room [OF b(1), of "demoEnv ClogFatal" "Some 7" 2 "[]" 9] b(2,3) ps(2,3) least by auto
  have link: "lpTransportConnection (parties lps' ! j) = Some t \<longrightarrow> t = 7" if "j < 2" for j t
    using that c(3,4) none b(3) by (cases "j = 0") auto
  then have "\<forall>p \<in> set (parties lps'). \<forall>t. lpTransportConnection p = Some t \<longrightarrow> t < 64"
    using c(2) by (fastforce simp: in_set_conv_nth)
  then have "serverWf (demoServer lps' ps')" using c(1) by (intro demoServer_wf)
  moreover have "\<forall>m \<in> usedParties lps'. lpTransportConnection (parties lps' ! m) \<noteq> Some 3"
    using link c(2) by (fastforce simp: usedParties_def)
  ultimately show ?thesis using c(2,5,6) by (intro exI [of _ lps'] exI [of _ ps']) simp
qed

lemma demo_joinRequest:
  "nimbleSerializeServerInJoinGameRequest (demoEnv c) (demoInInit [k, p, 1]) =
    (0, \<lparr>jrJoinGameType = (if k = 0 then NimbleSerializeJoinGameTypeNoSecret else NimbleSerializeJoinGameTypePartySecret),
      jrPartyId = p, jrSessionSecret = 0, jrPlayerCount = 1, jrPlayers = [0], jrNonce = 0\<rparr>,
     (demoInInit [k, p, 1])\<lparr>inPos := 3\<rparr>)"
  by (simp add: demoEnv_def demoInJoin_def demoRead8_def demoInInit_def)

section \<open>Properties\<close>

text \<open>
  C6. A join request for one player from a connection that serves no party yet, on every branch. With
  every place taken the request is refused and changes nothing; with the participants at capacity it is
  refused, with every party in use and every participant as before. Otherwise a free place and an unused
  participant are taken; the party and the connection lead to each other, the participant starts at
  the next authoritative step, and the client is told exactly that party and that participant. The
  server is well formed after each branch.
\<close>

theorem reqGameJoin_new_party:
  assumes "serverWf self" "i < length (transportConnections self)"
    and "nimbleSerializeServerInJoinGameRequest E s = (e, jr, s1)" "0 \<le> e"
    and "jrJoinGameType jr = NimbleSerializeJoinGameTypeNoSecret" "jrPlayerCount jr = 1" "jrPlayers jr = player # players"
    and "\<forall>j \<in> usedParties (localParties self). lpTransportConnection (parties (localParties self) ! j) \<noteq> Some i"
  shows "if usedParties (localParties self) = {0..<length (parties (localParties self))} then
      \<exists>out'. nimbleServerReqGameJoin E self i s out = Some (NimbleServerErrOutOfParticipantMemory, self, s1, out')
    else if card (usedIds (gameParticipants (game self))) = unat (participantCapacity (gameParticipants (game self))) then
      \<exists>lps' out'. nimbleServerReqGameJoin E self i s out = Some (NimbleServerErrSessionFull, self\<lparr>localParties := lps'\<rparr>, s1, out') \<and>
        serverWf (self\<lparr>localParties := lps'\<rparr>) \<and> usedParties lps' = usedParties (localParties self) \<and>
        (\<forall>m \<in> usedParties lps'. parties lps' ! m = parties (localParties self) ! m)
    else \<exists>j k self'. nimbleServerReqGameJoin E self i s out = Some (0, self', s1,
          snd (nimbleSerializeServerOutJoinGameResponse E out \<lparr>jsPartyId = of_nat j, jsSessionSecret = sessionSecret self,
            jsParticipantCount = 1, jsParticipants = [\<lparr>jpParticipantId = of_nat k, jpLocalIndex = player\<rparr>]\<rparr>)) \<and>
        serverWf self' \<and> j \<notin> usedParties (localParties self) \<and> k \<notin> usedIds (gameParticipants (game self)) \<and>
        usedParties (localParties self') = insert j (usedParties (localParties self)) \<and>
        (\<forall>m. m \<noteq> j \<longrightarrow> parties (localParties self') ! m = parties (localParties self) ! m) \<and>
        lpTransportConnection (parties (localParties self') ! j) = Some i \<and>
        tcAssignedParty (transportConnections self' ! i) = Some j \<and>
        refIndices (lpReferences (parties (localParties self') ! j)) = {k} \<and>
        participants (gameParticipants (game self')) = (participants (gameParticipants (game self)))[k :=
          joinedParticipant E (participants (gameParticipants (game self)) ! k) j
            (expectedWriteId (authoritativeSteps (game self))) player (of_nat k)]"
  using assms(1)
proof (cases rule: reqGameJoin_cases [of _ i])
  case (served j)
  from searched_in_range(2) [OF assms(1) served] assms(8) have False by (auto simp: partySearched_def)
  then show ?thesis ..
next
  case outOfMemory
  from reqGameJoin_full(1) [OF assms(1-6) outOfMemory] outOfMemory(2) show ?thesis by simp
next
  case full
  from reqGameJoin_full(2) [OF assms(1-6) full] full(2,3) show ?thesis by simp
next
  case room
  then have no: "\<not> usedParties (localParties self) = {0..<length (parties (localParties self))}"
    "\<not> card (usedIds (gameParticipants (game self))) = unat (participantCapacity (gameParticipants (game self)))" by auto
  from reqGameJoin_creates [OF assms(1-7) room] show ?thesis
    unfolding if_not_P [OF no(1)] if_not_P [OF no(2)] by blast
qed

theorem reqGameJoin_new_party_witness:
  "\<exists>ps self' s1 out'. serverWf (demoServer blankParties ps) \<and>
    nimbleServerReqGameJoin (demoEnv ClogFatal) (demoServer blankParties ps) 3 (demoInInit [0, 0, 1]) (demoOutInit 100) =
      Some (0, self', s1, out') \<and> card (usedParties (localParties self')) = 1"
proof -
  obtain ps where ps: "serverWf (demoServer blankParties ps)" "usedIds ps = {}" "participantCapacity ps = 4"
    using blankServer by blast
  have S: "localParties (demoServer blankParties ps) = blankParties" "gameParticipants (game (demoServer blankParties ps)) = ps"
    "length (transportConnections (demoServer blankParties ps)) = 64"
    by (simp_all add: demoServer_def demoGame_def)
  have b: "usedParties blankParties = {}" "length (parties blankParties) = 2"
    by (auto simp: blankParties_def nimbleServerLocalPartiesInit_def usedParties_def nimbleServerLocalPartyInit_def
        nimbleServerLocalPartyReInit_def Let_def)
  from reqGameJoin_new_party [OF ps(1) _ demo_joinRequest [of ClogFatal 0 0], where i = 3 and out = "demoOutInit 100"] ps(1)
  show ?thesis by (auto simp: S b ps(2,3))
qed

text \<open>A repeated join: the connection had its party already, or the first request gave it one.\<close>

lemma reqGameJoin_again_served:
  assumes wf: "serverWf self" and i: "i < length (transportConnections self)"
    and rd: "nimbleSerializeServerInJoinGameRequest E s = (e, jr, s1)" "0 \<le> e"
    and served: "firstFrom (partySearched self i) 0 (unat (partiesCount (localParties self))) = Some j"
    and run0: "nimbleServerReqGameJoin E self i s out = Some (0, self', s1, out')"
  shows "\<exists>answer. out' = snd (nimbleSerializeServerOutJoinGameResponse E out answer) \<and>
    (\<forall>out2. nimbleServerReqGameJoin E self' i s out2 =
       Some (0, self', s1, snd (nimbleSerializeServerOutJoinGameResponse E out2 answer)))"
proof -
  have j: "j < length (parties (localParties self))" by (rule searched_in_range(1) [OF wf served])
  have run: "self' = partyAssigned self i j" "out' = snd (nimbleSerializeServerOutJoinGameResponse E out
      (joinAnswer (sessionSecret self) (participants (gameParticipants (game self))) (parties (localParties self) ! j)))"
    using reqGameJoin_served [OF wf i rd served, of out] run0 by simp_all
  note again = partyAssigned_again [OF i j]
  have "firstFrom (partySearched self' i) 0 (unat (partiesCount (localParties self'))) = Some j"
    using served firstFrom_cong [of 0 "unat (partiesCount (localParties self))" "partySearched self' i" "partySearched self i"]
    by (simp add: run(1) partySearched_assigned [OF j] again(5))
  moreover have "serverWf self'" "i < length (transportConnections self')"
    using partyAssigned_wf [OF wf i j] i by (simp_all add: run(1)) (simp add: partyAssigned_def)
  ultimately have "nimbleServerReqGameJoin E self' i s out2 = Some (0, self', s1, snd (nimbleSerializeServerOutJoinGameResponse E out2
      (joinAnswer (sessionSecret self) (participants (gameParticipants (game self))) (parties (localParties self) ! j))))" for out2
    using reqGameJoin_served [of self' i E s e jr s1 j out2] rd by (simp add: run(1) again)
  with run(2) show ?thesis by blast
qed

lemma reqGameJoin_again_created:
  assumes wf: "serverWf self" and i: "i < length (transportConnections self)"
    and rd: "nimbleSerializeServerInJoinGameRequest E s = (e, jr, s1)" "0 \<le> e"
    and jr: "jrJoinGameType jr = NimbleSerializeJoinGameTypeNoSecret" "jrPlayerCount jr = 1" "jrPlayers jr = player # players"
    and dense: "usedParties (localParties self) = {0..<n}"
    and room: "firstFrom (partySearched self i) 0 (unat (partiesCount (localParties self))) = None"
      "usedParties (localParties self) \<noteq> {0..<length (parties (localParties self))}"
      "card (usedIds (gameParticipants (game self))) < unat (participantCapacity (gameParticipants (game self)))"
    and run0: "nimbleServerReqGameJoin E self i s out = Some (0, self', s1, out')"
  shows "\<exists>answer. out' = snd (nimbleSerializeServerOutJoinGameResponse E out answer) \<and>
    (\<forall>out2. nimbleServerReqGameJoin E self' i s out2 =
       Some (0, self', s1, snd (nimbleSerializeServerOutJoinGameResponse E out2 answer)))"
proof -
  have count: "unat (partiesCount (localParties self)) = n"
    using serverWf_session [OF wf] dense by (simp add: sessionWf_def partiesShape_def)
  define j where "j = (LEAST m. m \<notin> usedParties (localParties self))"
  have jn: "j = n" unfolding j_def dense by (intro Least_equality) auto
  obtain k lps' where c1: "out' = snd (nimbleSerializeServerOutJoinGameResponse E out
        (joinAnswer (sessionSecret self) (participants (gameParticipants (game self'))) (parties (localParties self') ! j)))"
    and c2: "serverWf self'" "j < length (parties (localParties self))"
    and c3: "usedParties (localParties self') = insert j (usedParties (localParties self))"
    and c4: "\<forall>m. m \<noteq> j \<longrightarrow> parties (localParties self') ! m = parties (localParties self) ! m"
    and c5: "lpTransportConnection (parties (localParties self') ! j) = Some i"
    and c6: "self' = partyAssigned (self\<lparr>localParties := lps', game := (game self)\<lparr>gameParticipants :=
        gameParticipants (game self')\<rparr>\<rparr>) i j" "length (parties lps') = length (parties (localParties self))"
    using reqGameJoin_creates [OF wf i rd jr room, of out, folded j_def] run0 by auto
  have count': "unat (partiesCount (localParties self')) = Suc n"
    using serverWf_session [OF c2(1)] c3 dense by (simp add: sessionWf_def partiesShape_def jn)
  have "\<not> partySearched self' i m" if "m < j" for m
    using room(1) that c3 c4 jn by (simp add: firstFrom_None count partySearched_def)
  then have "firstFrom (partySearched self' i) 0 (unat (partiesCount (localParties self'))) = Some j"
    using c3 c5 jn by (intro firstFrom_unique) (auto simp: count' partySearched_def)
  moreover have "i < length (transportConnections self')" using i c2(1) wf serverWf_len by metis
  moreover have "partyAssigned self' i j = self'"
    using partyAssigned_again(1) [of i "self\<lparr>localParties := lps', game := (game self)\<lparr>gameParticipants :=
        gameParticipants (game self')\<rparr>\<rparr>" j] i c2(2) c6 by simp
  moreover have "sessionSecret self' = sessionSecret self"
    by (subst c6(1)) (simp add: partyAssigned_def)
  ultimately have "nimbleServerReqGameJoin E self' i s out2 = Some (0, self', s1, snd (nimbleSerializeServerOutJoinGameResponse E out2
      (joinAnswer (sessionSecret self) (participants (gameParticipants (game self'))) (parties (localParties self') ! j))))" for out2
    using reqGameJoin_served [OF c2(1) _ rd, of i j out2] by simp
  with c1 show ?thesis by blast
qed

text \<open>
  C27. A repeated join request joins once. While the parties in use fill the array from its start, a
  connection whose request was accepted and that sends it again leaves the server as it is and gets the
  same answer: no second party and no second participant.
\<close>

theorem reqGameJoin_repeated:
  assumes "serverWf self" "i < length (transportConnections self)"
    and "nimbleSerializeServerInJoinGameRequest E s = (e, jr, s1)" "0 \<le> e" "plainJoin jr"
    and "usedParties (localParties self) = {0..<n}"
    and "nimbleServerReqGameJoin E self i s out = Some (0, self', s1, out')"
  shows "\<exists>answer. out' = snd (nimbleSerializeServerOutJoinGameResponse E out answer) \<and>
    (\<forall>out2. nimbleServerReqGameJoin E self' i s out2 =
       Some (0, self', s1, snd (nimbleSerializeServerOutJoinGameResponse E out2 answer)))"
proof -
  obtain player players where jr: "jrJoinGameType jr = NimbleSerializeJoinGameTypeNoSecret" "jrPlayerCount jr = 1"
    "jrPlayers jr = player # players" using assms(5) by (auto simp: plainJoin_def neq_Nil_conv)
  from assms(1) show ?thesis
  proof (cases rule: reqGameJoin_cases [of _ i])
    case (served j)
    from reqGameJoin_again_served [OF assms(1-4) served assms(7)] show ?thesis .
  next
    case outOfMemory
    from reqGameJoin_full(1) [OF assms(1-4) jr(1,2) outOfMemory, of out] assms(7) show ?thesis
      by (auto simp: NimbleServerErrOutOfParticipantMemory_def)
  next
    case full
    from reqGameJoin_full(2) [OF assms(1-4) jr(1,2) full, of out] assms(7) show ?thesis
      by (auto simp: NimbleServerErrSessionFull_def)
  next
    case room
    from reqGameJoin_again_created [OF assms(1-4) jr assms(6) room assms(7)] show ?thesis .
  qed
qed

theorem reqGameJoin_repeated_witness:
  "\<exists>ps self' s1 out'. serverWf (demoServer blankParties ps) \<and>
    nimbleServerReqGameJoin (demoEnv ClogFatal) (demoServer blankParties ps) 3 (demoInInit [0, 0, 1]) (demoOutInit 100) =
      Some (0, self', s1, out') \<and>
    nimbleServerReqGameJoin (demoEnv ClogFatal) self' 3 (demoInInit [0, 0, 1]) (demoOutInit 100) = Some (0, self', s1, out')"
proof -
  let ?E = "demoEnv ClogFatal" and ?s = "demoInInit [0, 0, 1]" and ?out = "demoOutInit 100"
  obtain ps where ps: "serverWf (demoServer blankParties ps)" "usedIds ps = {}" "participantCapacity ps = 4"
    using blankServer by blast
  let ?S = "demoServer blankParties ps"
  have S: "localParties ?S = blankParties" "gameParticipants (game ?S) = ps" "3 < length (transportConnections ?S)"
    by (simp_all add: demoServer_def demoGame_def)
  note rd = demo_joinRequest [of ClogFatal 0 0, simplified]
  have first: "\<exists>self' out'. nimbleServerReqGameJoin ?E ?S 3 ?s ?out = Some (0, self', ?s\<lparr>inPos := 3\<rparr>, out')"
    using reqGameJoin_creates [OF ps(1) S(3) rd, of 0 "[]" ?out] blank_used
    by (auto simp: S ps(2,3) firstFrom_None partySearched_def)
  then obtain self' out' where run: "nimbleServerReqGameJoin ?E ?S 3 ?s ?out = Some (0, self', ?s\<lparr>inPos := 3\<rparr>, out')" by blast
  have "usedParties (localParties ?S) = {0..<0}" using blank_used by (simp add: S)
  from reqGameJoin_repeated [OF ps(1) S(3) rd _ _ this run] ps(1) run show ?thesis by (auto simp: plainJoin_def)
qed

text \<open>
  C7. A request to rejoin with the number of players the party has gives the party back: it is served
  by the new connection, in its normal state with its waiting over, and keeps its participants; every
  other party stays as it is. The participants themselves are not touched, so one marked as waiting for
  a rejoin stays marked.
\<close>

theorem rejoin_restores_party:
  assumes "serverWf self" "i < length (transportConnections self)"
    and "nimbleSerializeServerInJoinGameRequest E s = (e, jr, s1)" "0 \<le> e"
    and "jrJoinGameType jr = NimbleSerializeJoinGameTypePartySecret" "unat (jrPartyId jr) = j"
    and "\<forall>m \<in> usedParties (localParties self). lpTransportConnection (parties (localParties self) ! m) \<noteq> Some i"
    and "j < length (parties (localParties self))"
    and "participantReferenceCount (lpReferences (parties (localParties self) ! j)) = jrPlayerCount jr"
  shows "\<exists>self'. nimbleServerReqGameJoin E self i s out = Some (0, self', s1,
      snd (nimbleSerializeServerOutJoinGameResponse E out (joinAnswer (sessionSecret self)
        (participants (gameParticipants (game self))) (parties (localParties self) ! j)))) \<and>
    serverWf self' \<and> game self' = game self \<and> tcAssignedParty (transportConnections self' ! i) = Some j \<and>
    lpTransportConnection (parties (localParties self') ! j) = Some i \<and>
    lpState (parties (localParties self') ! j) = NimbleServerLocalPartyStateNormal \<and>
    lpWaitingForReconnectTimer (parties (localParties self') ! j) = 0 \<and>
    lpReferences (parties (localParties self') ! j) = lpReferences (parties (localParties self) ! j) \<and>
    lpIsUsed (parties (localParties self') ! j) = lpIsUsed (parties (localParties self) ! j) \<and>
    (\<forall>m. m \<noteq> j \<longrightarrow> parties (localParties self') ! m = parties (localParties self) ! m)"
proof -
  note r = reqGameJoin_rejoins [OF assms(1-6) unserved [OF assms(7)] assms(8,9)]
  show ?thesis
    by (rule exI [of _ "partyAssigned (partyRejoined E self i j) i j"])
      (use r assms(2,8) in \<open>simp add: partyAssigned_def partyRejoined_def rejoined_fields\<close>)
qed

theorem rejoin_restores_party_witness:
  "\<exists>(lps :: demo NimbleServerLocalParties) ps self' s1 out'. serverWf (demoServer lps ps) \<and>
    nimbleServerReqGameJoin (demoEnv ClogFatal) (demoServer lps ps) 3 (demoInInit [1, 0, 1]) (demoOutInit 100) =
      Some (0, self', s1, out') \<and> tcAssignedParty (transportConnections self' ! 3) = Some 0"
proof -
  obtain lps :: "demo NimbleServerLocalParties" and ps where s: "serverWf (demoServer lps ps)"
      "participantReferenceCount (lpReferences (parties lps ! 0)) = 1" "length (parties lps) = 2"
      "\<forall>m \<in> usedParties lps. lpTransportConnection (parties lps ! m) \<noteq> Some 3"
    using demoParties by blast
  have S: "localParties (demoServer lps ps) = lps" "3 < length (transportConnections (demoServer lps ps))"
    by (simp_all add: demoServer_def)
  from rejoin_restores_party [OF s(1) S(2) demo_joinRequest [of ClogFatal 1 0], where j = 0 and out = "demoOutInit 100"] s(2-4)
  obtain self' out' where "nimbleServerReqGameJoin (demoEnv ClogFatal) (demoServer lps ps) 3 (demoInInit [1, 0, 1]) (demoOutInit 100) =
      Some (0, self', (demoInInit [1, 0, 1])\<lparr>inPos := 3\<rparr>, out')" "tcAssignedParty (transportConnections self' ! 3) = Some 0"
    by (auto simp: S)
  with s(1) show ?thesis by blast
qed

text \<open>
  C39. A request to rejoin a party whose number of participants is not the number of players, such as a
  party that was dissolved in the meantime and has none left, has no defined result in either build: the
  handler goes on with a pointer to a party that was never assigned.
\<close>

theorem rejoin_of_other_size_undefined:
  assumes "serverWf self" "i < length (transportConnections self)"
    and "nimbleSerializeServerInJoinGameRequest E s = (e, jr, s1)" "0 \<le> e"
    and "jrJoinGameType jr = NimbleSerializeJoinGameTypePartySecret"
    and "\<forall>m \<in> usedParties (localParties self). lpTransportConnection (parties (localParties self) ! m) \<noteq> Some i"
    and "unat (jrPartyId jr) < length (parties (localParties self))"
    and "participantReferenceCount (lpReferences (parties (localParties self) ! unat (jrPartyId jr))) \<noteq> jrPlayerCount jr"
  shows "nimbleServerReqGameJoin E self i s out = None"
proof -
  let ?lps = "localParties self" and ?ps = "gameParticipants (game self)"
  have find: "nimbleServerLocalPartiesFindParty (clogMode E) ?lps (jrPartyId jr) = Some (unat (jrPartyId jr))"
    using serverWf_session [OF assms(1)] assms(7)
    by (simp add: nimbleServerLocalPartiesFindParty_def sessionWf_def partiesShape_def)
  have "joinLocalParty E (transportConnections self) ?lps ?ps i jr
      (expectedWriteId (authoritativeSteps (game self))) = Some (0, None, ?lps, ?ps)"
    using assms(5,7,8) find by (simp add: joinLocalParty_unknown [OF assms(1,2) unserved [OF assms(6)]])
  with assms(3,4) show ?thesis by (simp add: nimbleServerReqGameJoin_def nimbleServerReadAndJoinParticipants_def)
qed

theorem rejoin_of_other_size_undefined_witness:
  "\<exists>ps. serverWf (demoServer blankParties ps) \<and>
    nimbleServerReqGameJoin (demoEnv ClogOff) (demoServer blankParties ps) 3 (demoInInit [1, 0, 1]) (demoOutInit 100) = None"
proof -
  obtain ps where ps: "serverWf (demoServer blankParties ps)" using blankServer by blast
  have S: "localParties (demoServer blankParties ps) = blankParties" "3 < length (transportConnections (demoServer blankParties ps))"
    by (simp_all add: demoServer_def)
  have "participantReferenceCount (lpReferences (parties blankParties ! 0)) = 0" "0 < length (parties blankParties)"
    by (simp_all add: blankParties_def nimbleServerLocalPartiesInit_def nimbleServerLocalPartyInit_def
        nimbleServerLocalPartyReInit_def Let_def)
  with rejoin_of_other_size_undefined [OF ps S(2) demo_joinRequest [of ClogOff 1 0], where out = "demoOutInit 100"] ps blank_used
  show ?thesis by (auto simp: S)
qed

end
