(* ===== verification/Server.thy ===== *)
theory Server
  imports ReqJoin
begin

text \<open>
  The server, \<open>src/src/lib/server.c\<close>: the tick, the dispatch of datagrams to the request handlers,
  initialisation, host migration and the notifications of the transport. A connection or party is its
  position in the array of the server, so a handler that changes the array and the caller that holds a
  pointer into it see the same connection.
\<close>

section \<open>The tick\<close>

definition markReferencesAsLeaving ::
  "NimbleServerParticipantReferences \<Rightarrow> 'x NimbleServerParticipant list \<Rightarrow> 'x NimbleServerParticipant list option" where
  "markReferencesAsLeaving refs ps =
     forEachReferenced nimbleServerParticipantMarkAsLeaving refs ps"

definition destroyParty ::
  "clog \<Rightarrow> 'x NimbleServerLocalParties \<Rightarrow> 'x NimbleServerParticipant list \<Rightarrow> nat \<Rightarrow>
   ('x NimbleServerLocalParties \<times> 'x NimbleServerParticipant list) option" where
  "destroyParty c lps ps party = do {
     pl \<leftarrow> modifyAt (parties lps) party nimbleServerLocalPartyDestroy;
     p \<leftarrow> readAt pl party;
     ps1 \<leftarrow> markReferencesAsLeaving (lpReferences p) ps;
     lps1 \<leftarrow> nimbleServerLocalPartiesRemove c (lps\<lparr>parties := pl\<rparr>) party;
     Some (lps1, ps1)
   }"

definition disconnectTransportConnection :: "clog \<Rightarrow> 'x NimbleServer \<Rightarrow> nat \<Rightarrow> 'x NimbleServer option" where
  "disconnectTransportConnection c self transportConnection = do {
     tc \<leftarrow> readAt (transportConnections self) transportConnection;
     fl \<leftarrow> nimbleServerCircularBufferWrite c (freeTransportConnectionList self) (tcId tc);
     Some (self\<lparr>freeTransportConnectionList := fl,
       transportConnections := (transportConnections self)[transportConnection := transportConnectionDisconnect tc]\<rparr>)
   }"

text \<open>\<open>withSession\<close> stores the parties and participants that a call changed.\<close>

definition withSession ::
  "'x NimbleServer \<Rightarrow> 'x NimbleServerLocalParties \<Rightarrow> 'x NimbleServerParticipant list \<Rightarrow> 'x NimbleServer" where
  "withSession self lps ps = self\<lparr>localParties := lps,
     game := (game self)\<lparr>gameParticipants := (gameParticipants (game self))\<lparr>participants := ps\<rparr>\<rparr>\<rparr>"

text \<open>The body of the loop of \<open>tickParties\<close> for the party at position \<open>i\<close>.\<close>

definition tickParty :: "clog \<Rightarrow> 'x NimbleServer \<Rightarrow> nat \<Rightarrow> 'x NimbleServer option" where
  "tickParty c self i = do {
     party \<leftarrow> readAt (parties (localParties self)) i;
     if \<not> lpIsUsed party then Some self
     else do {
       (isWorking, party1, ps1) \<leftarrow> nimbleServerLocalPartyTick (participants (gameParticipants (game self))) party;
       let lps1 = (localParties self)\<lparr>parties := (parties (localParties self))[i := party1]\<rparr>;
       if isWorking then Some (withSession self lps1 ps1)
       else do {
         (lps2, ps2) \<leftarrow> destroyParty c lps1 ps1 i;
         party2 \<leftarrow> readAt (parties lps2) i;
         (case lpTransportConnection party2 of
            None \<Rightarrow> Some (withSession self lps2 ps2)
          | Some t \<Rightarrow> disconnectTransportConnection c (withSession self lps2 ps2) t)
       }
     }
   }"

definition tickParties :: "clog \<Rightarrow> 'x NimbleServer \<Rightarrow> 'x NimbleServer option" where
  "tickParties c self = runAll (tickParty c) self [0..<unat (capacityCount (localParties self))]"

section \<open>Datagrams\<close>

definition nimbleServerIsErrorExternal :: "int \<Rightarrow> bool" where
  "nimbleServerIsErrorExternal err \<longleftrightarrow> err = NimbleServerErrSerialize \<or> err = NimbleServerErrSessionFull \<or>
     err = NimbleServerErrDatagramFromDisconnectedConnection \<or> err = NimbleServerErrOutOfParticipantMemory"

definition setConnection :: "'x NimbleServer \<Rightarrow> nat \<Rightarrow> 'x NimbleServerTransportConnection \<Rightarrow> 'x NimbleServer" where
  "setConnection self i tc = self\<lparr>transportConnections := (transportConnections self)[i := tc]\<rparr>"

text \<open>
  The \<open>switch\<close> over the command. The answer is the result, the output stream and the state after the
  handler, or \<open>None\<close> for an unknown command.
\<close>

definition feedSwitch ::
  "'x Env \<Rightarrow> 'x transportOut \<Rightarrow> u8 \<Rightarrow> u16 \<Rightarrow> u8 \<Rightarrow> 'x NimbleServer \<Rightarrow> 'x FldInStream \<Rightarrow> 'x FldOutStream \<Rightarrow> 'x \<Rightarrow>
   (int \<times> 'x NimbleServer \<times> 'x FldInStream \<times> 'x FldOutStream \<times> 'x) option option" where
  "feedSwitch E send transportIndex clientTime cmd self inStream outStream w =
     (if cmd = cmdOctet E NimbleSerializeCmdConnectRequest then
        map_option Some (nimbleServerReqConnect E self transportIndex inStream outStream w)
      else if cmd = cmdOctet E NimbleSerializeCmdGameStep then do {
        tc \<leftarrow> readAt (transportConnections self) (unat transportIndex);
        (r, game1, tc1, pl, stat, inStream1, outStream1) \<leftarrow> nimbleServerReqGameStep E (game self) tc
          (parties (localParties self)) (authoritativeStepsPerSecondStat self) inStream outStream;
        Some (Some (r, (setConnection self (unat transportIndex) tc1)\<lparr>game := game1,
          localParties := (localParties self)\<lparr>parties := pl\<rparr>, authoritativeStepsPerSecondStat := stat\<rparr>,
          inStream1, outStream1, w))
      }
      else if cmd = cmdOctet E NimbleSerializeCmdJoinGameRequest then do {
        (r, self1, inStream1, outStream1) \<leftarrow> nimbleServerReqGameJoin E self (unat transportIndex) inStream outStream;
        Some (Some (r, self1, inStream1, outStream1, w))
      }
      else if cmd = cmdOctet E NimbleSerializeCmdDownloadGameStateRequest then do {
        tc \<leftarrow> readAt (transportConnections self) (unat transportIndex);
        (r, tc1, inStream1, w1) \<leftarrow> nimbleServerReqDownloadGameState E tc inStream send clientTime w;
        Some (Some (r, setConnection self (unat transportIndex) tc1, inStream1, outStream, w1))
      }
      else Some None)"

text \<open>
  One round of the loop over the commands of a datagram, after the command was read. The answer is
  \<open>Some r\<close> when the function returns \<open>r\<close> and \<open>None\<close> when the loop goes on.
\<close>

definition feedBlobStream ::
  "'x Env \<Rightarrow> 'x transportOut \<Rightarrow> u8 \<Rightarrow> u16 \<Rightarrow> 'x NimbleServer \<Rightarrow> 'x FldInStream \<Rightarrow> 'x \<Rightarrow>
   (int option \<times> 'x NimbleServer \<times> 'x FldInStream \<times> 'x) option" where
  "feedBlobStream E send transportIndex clientTime self inStream w = do {
     tc \<leftarrow> readAt (transportConnections self) (unat transportIndex);
     let (err, tc1, inStream1, w1) = nimbleServerReqBlobStream E tc inStream send clientTime w;
     Some (if err < 0 then Some err else None, setConnection self (unat transportIndex) tc1, inStream1, w1)
   }"

text \<open>The end of a round: the reply is sent, if there is one and it is not too long.\<close>

definition feedReply ::
  "'x Env \<Rightarrow> 'x transportOut \<Rightarrow> u8 \<Rightarrow> int \<Rightarrow> 'x NimbleServer \<Rightarrow> 'x FldOutStream \<Rightarrow> 'x \<Rightarrow>
   (int option \<times> 'x NimbleServer \<times> 'x) option" where
  "feedReply E send transportIndex result self outStream w =
     (if result < 0 then Some (Some result, self, w)
      else if outPos outStream \<le> 4 then Some (Some NimbleServerErrSerialize, self, w)
      else do {
        tc \<leftarrow> readAt (transportConnections self) (unat transportIndex);
        let self1 = setConnection self (unat transportIndex) (transportConnectionCommitHeader E tc);
        if outPos outStream > datagramTransportMaxSize E then Some (Some NimbleServerErrSerialize, self1, w)
        else Some (None, self1, snd (send (outOctets outStream) w))
      })"

definition feedCommand ::
  "'x Env \<Rightarrow> 'x transportOut \<Rightarrow> u8 \<Rightarrow> u16 \<Rightarrow> u8 \<Rightarrow> 'x NimbleServer \<Rightarrow> 'x FldInStream \<Rightarrow> 'x \<Rightarrow>
   (int option \<times> 'x NimbleServer \<times> 'x FldInStream \<times> 'x) option" where
  "feedCommand E send transportIndex clientTime cmd self inStream w =
     (if cmd = cmdOctet E NimbleSerializeCmdClientOutBlobStream
      then feedBlobStream E send transportIndex clientTime self inStream w
      else do {
        let outStream = (fldOutStreamInit E (DATAGRAM_TRANSPORT_MAX_SIZE E - 32))\<lparr>outWriteDebugInfo := False\<rparr>;
        tc \<leftarrow> readAt (transportConnections self) (unat transportIndex);
        let (err, tc1, outStream1) = transportConnectionWriteHeader E tc outStream clientTime;
        let self1 = setConnection self (unat transportIndex) tc1;
        if err < 0 then Some (Some err, self1, inStream, w)
        else do {
          handled \<leftarrow> feedSwitch E send transportIndex clientTime cmd self1 inStream outStream1 w;
          (case handled of
             None \<Rightarrow> Some (Some 0, self1, inStream, w)
           | Some (result, self2, inStream2, outStream2, w2) \<Rightarrow> do {
               (ret, self3, w3) \<leftarrow> feedReply E send transportIndex result self2 outStream2 w2;
               Some (ret, self3, inStream2, w3)
             })
        }
      })"

partial_function (option) feedLoop ::
  "'x Env \<Rightarrow> 'x transportOut \<Rightarrow> u8 \<Rightarrow> u16 \<Rightarrow> 'x NimbleServer \<Rightarrow> 'x FldInStream \<Rightarrow> 'x \<Rightarrow>
   (int \<times> 'x NimbleServer \<times> 'x) option" where
  "feedLoop E send transportIndex clientTime self inStream w =
     (if inPos inStream = inSize inStream then Some (0, self, w)
      else do {
        let (_, cmd, inStream1) = fldInStreamReadUInt8 E inStream;
        (ret, self1, inStream2, w1) \<leftarrow> feedCommand E send transportIndex clientTime cmd self inStream1 w;
        (case ret of
           Some r \<Rightarrow> Some (r, self1, w1)
         | None \<Rightarrow> feedLoop E send transportIndex clientTime self1 inStream2 w1)
      })"

text \<open>A connection that is not in use is taken for the transport the datagram came from.\<close>

definition feedConnection :: "'x Env \<Rightarrow> 'x NimbleServer \<Rightarrow> u8 \<Rightarrow> 'x NimbleServerTransportConnection \<Rightarrow>
  'x NimbleServerTransportConnection" where
  "feedConnection E self transportIndex tc =
     (if tcIsUsed tc then tc
      else transportConnectionInit E (tc\<lparr>tcIsUsed := True, tcTransportIndex := transportIndex,
        tcConnectedFromConnectRequestId := 0, tcSecret := 0, tcUseDebugStreams := False,
        tcPhase := NbTransportConnectionPhaseConnected, tcId := transportIndex\<rparr>)
        (suMaxGameStateOctetCount (serverSetup self)))"

definition nimbleServerFeed ::
  "'x Env \<Rightarrow> 'x NimbleServer \<Rightarrow> u8 \<Rightarrow> octets \<Rightarrow> 'x transportOut \<Rightarrow> 'x \<Rightarrow> (int \<times> 'x NimbleServer \<times> 'x) option" where
  "nimbleServerFeed E self transportIndex octs send w =
     (let inStream = (fldInStreamInit E octs)\<lparr>inReadDebugInfo := True\<rparr>
      in if unat transportIndex \<ge> NIMBLE_NIMBLE_SERVER_MAX_TRANSPORT_CONNECTIONS then Some (NimbleServerErrSerialize, self, w)
      else do {
        tc0 \<leftarrow> readAt (transportConnections self) (unat transportIndex);
        let tc1 = feedConnection E self transportIndex tc0;
        let self1 = setConnection self (unat transportIndex) tc1;
        if tcTransportIndex tc1 \<noteq> transportIndex then Some (NimbleServerErrSerialize, self1, w)
        else do {
          let (error, logic, inStream1) = orderedDatagramInLogicReceive E (tcOrderedDatagramInLogic tc1) inStream;
          let self2 = setConnection self1 (unat transportIndex) (tc1\<lparr>tcOrderedDatagramInLogic := logic\<rparr>);
          if error < 0 then Some (NimbleServerErrSerialize, self2, w)
          else do {
            let (_, clientTime, inStream2) = fldInStreamReadUInt16 E inStream1;
            feedLoop E send transportIndex clientTime self2 inStream2 w
          }
        }
      })"

section \<open>The multi transport\<close>

definition sendOnlyToSpecifiedTransport :: "'x Env \<Rightarrow> int \<Rightarrow> 'x transportOut" where
  "sendOnlyToSpecifiedTransport E connectionIndex octs w = multiTransportSendTo E w connectionIndex octs"

text \<open>The loop that reads datagrams, \<open>n\<close> to go.\<close>

fun readDatagrams :: "'x Env \<Rightarrow> nat \<Rightarrow> 'x NimbleServer \<Rightarrow> 'x \<Rightarrow> (int \<times> 'x NimbleServer \<times> 'x) option" where
  "readDatagrams E 0 self w = Some (0, self, w)"
| "readDatagrams E (Suc n) self w = do {
     let (octetCountReceived, connectionId, datagram, w1) = multiTransportReceiveFrom E w (DATAGRAM_TRANSPORT_MAX_SIZE E);
     if octetCountReceived = 0 then Some (0, self, w1)
     else if octetCountReceived < 0 then Some (int_of_size (word_of_int octetCountReceived), self, w1)
     else do {
       clogAssert (clogMode E) ((word_of_int octetCountReceived :: size_t) \<le> DATAGRAM_TRANSPORT_MAX_SIZE E);
       (errorCode, self1, w2) \<leftarrow> nimbleServerFeed E self (word_of_int connectionId)
         (take (nat octetCountReceived) datagram) (sendOnlyToSpecifiedTransport E connectionId) w1;
       if errorCode < 0 then Some (errorCode, self1, w2) else readDatagrams E n self1 w2
     }
   }"

definition nimbleServerReadFromMultiTransport ::
  "'x Env \<Rightarrow> 'x NimbleServer \<Rightarrow> 'x \<Rightarrow> (int \<times> 'x NimbleServer \<times> 'x) option" where
  "nimbleServerReadFromMultiTransport E self w = readDatagrams E 64 self w"

definition nimbleServerUpdate ::
  "'x Env \<Rightarrow> 'x NimbleServer \<Rightarrow> int \<Rightarrow> 'x \<Rightarrow> (int \<times> 'x NimbleServer \<times> 'x) option" where
  "nimbleServerUpdate E self now w = do {
     (qualityError, quality, w1) \<leftarrow> nimbleServerUpdateQualityTick E w (updateQuality self);
     let self1 = self\<lparr>updateQuality := quality\<rparr>;
     if qualityError < 0 then Some (qualityError, self1, w1)
     else do {
       self2 \<leftarrow> tickParties (clogMode E) self1;
       (_, self3, w2) \<leftarrow> nimbleServerReadFromMultiTransport E self2 w1;
       Some (0, self3\<lparr>authoritativeStepsPerSecondStat := statsIntPerSecondUpdate E (authoritativeStepsPerSecondStat self3) now,
                      statsCounter := statsCounter self3 + 1\<rparr>, w2)
     }
   }"

section \<open>Initialisation\<close>

definition initConnection :: "nat \<Rightarrow> 'x NimbleServerTransportConnection \<Rightarrow> 'x NimbleServerTransportConnection" where
  "initConnection i tc = tc\<lparr>tcAssignedParty := None, tcTransportConnectionId := of_nat i, tcIsUsed := False\<rparr>"

definition initConnections ::
  "clog \<Rightarrow> 'x NimbleServerTransportConnection list \<Rightarrow> NimbleServerCircularBuffer \<Rightarrow>
   ('x NimbleServerTransportConnection list \<times> NimbleServerCircularBuffer) option" where
  "initConnections c tcs fl = do {
     tcs0 \<leftarrow> modifyAt tcs 0 (initConnection 0);
     runAll (\<lambda>(tcs, fl) i. do {
         tcs1 \<leftarrow> modifyAt tcs i (initConnection i);
         fl1 \<leftarrow> nimbleServerCircularBufferWrite c fl (of_nat i);
         Some (tcs1, fl1)
       }) (tcs0, nimbleServerCircularBufferInit fl) [1..<NIMBLE_NIMBLE_SERVER_MAX_TRANSPORT_CONNECTIONS]
   }"

definition nimbleServerInit ::
  "'x Env \<Rightarrow> 'x NimbleServer \<Rightarrow> 'x NimbleServerSetup \<Rightarrow> 'x \<Rightarrow> (int \<times> 'x NimbleServer \<times> 'x) option" where
  "nimbleServerInit E self setup0 w = do {
     clogAssert (clogMode E) (suHasMemory setup0);
     clogAssert (clogMode E) (suHasBlobAllocator setup0);
     clogErrorIf (clogMode E) (suMaxConnectionCount setup0 > of_nat NIMBLE_NIMBLE_SERVER_MAX_TRANSPORT_CONNECTIONS);
     clogErrorIf (clogMode E) (suMaxSingleParticipantStepOctetCount setup0 > NimbleStepMaxSingleStepOctetCount E);
     clogErrorIf (clogMode E) (suMaxParticipantCount setup0 > of_nat NIMBLE_NIMBLE_SERVER_MAX_TRANSPORT_CONNECTIONS);
     let lps = nimbleServerLocalPartiesInit E (localParties self) (suMaxConnectionCount setup0)
       (suMaxParticipantCountForEachConnection setup0) (suMaxSingleParticipantStepOctetCount setup0);
     (tcs, fl) \<leftarrow> initConnections (clogMode E) (transportConnections self) (freeTransportConnectionList self);
     let (quality, w1) = nimbleServerUpdateQualityInit E w (updateQuality self) (suTargetTickTimeMs setup0);
     Some (0, self\<lparr>localParties := lps, applicationVersion := suApplicationVersion setup0, serverSetup := setup0,
       transportConnections := tcs, freeTransportConnectionList := fl,
       authoritativeStepsPerSecondStat := statsIntPerSecondInit E (authoritativeStepsPerSecondStat self) (suNow setup0) 1000,
       updateQuality := quality\<rparr>, w1)
   }"

definition nimbleServerReInitWithGame ::
  "'x Env \<Rightarrow> 'x NimbleServer \<Rightarrow> StepId \<Rightarrow> int \<Rightarrow> 'x \<Rightarrow> (int \<times> 'x NimbleServer \<times> 'x) option" where
  "nimbleServerReInitWithGame E self stepId now w = do {
     game1 \<leftarrow> nimbleServerGameInit E (game self) (suMaxSingleParticipantStepOctetCount (serverSetup self))
       (suMaxParticipantCount (serverSetup self));
     let game2 = game1\<lparr>authoritativeSteps := nbsStepsReInit E (authoritativeSteps game1) stepId\<rparr>;
     lps \<leftarrow> nimbleServerLocalPartiesReset (localParties self);
     let (quality, w1) = nimbleServerUpdateQualityReInit E w (updateQuality self);
     Some (0, self\<lparr>game := game2, localParties := lps, updateQuality := quality,
       authoritativeStepsPerSecondStat := statsIntPerSecondInit E (authoritativeStepsPerSecondStat self) now 1000,
       statsCounter := 0\<rparr>, w1)
   }"

section \<open>Host migration\<close>

fun containsIdFrom :: "u8 list \<Rightarrow> u8 \<Rightarrow> nat \<Rightarrow> nat \<Rightarrow> bool option" where
  "containsIdFrom ids searchFor i 0 = Some False"
| "containsIdFrom ids searchFor i (Suc n) = do {
     participantId \<leftarrow> readAt ids i;
     if searchFor = participantId then Some True else containsIdFrom ids searchFor (Suc i) n
   }"

fun containsParticipantFrom :: "NimbleSerializeLocalPartyInfo list \<Rightarrow> u8 \<Rightarrow> nat \<Rightarrow> nat \<Rightarrow> bool option" where
  "containsParticipantFrom infos searchFor i 0 = Some False"
| "containsParticipantFrom infos searchFor i (Suc n) = do {
     party \<leftarrow> readAt infos i;
     found \<leftarrow> containsIdFrom (piParticipantIds party) searchFor 0 (unat (piParticipantCount party));
     if found then Some True else containsParticipantFrom infos searchFor (Suc i) n
   }"

definition containsParticipantId :: "NimbleSerializeLocalPartyInfo list \<Rightarrow> size_t \<Rightarrow> u8 \<Rightarrow> bool option" where
  "containsParticipantId infos partyCount searchFor = containsParticipantFrom infos searchFor 0 (unat partyCount)"

text \<open>The loop that prepares the parties, from position \<open>i\<close>, \<open>n\<close> to go.\<close>

fun preparePartiesFrom ::
  "'x Env \<Rightarrow> StepId \<Rightarrow> NimbleSerializeLocalPartyInfo list \<Rightarrow> nat \<Rightarrow> nat \<Rightarrow> 'x NimbleServerLocalParties \<Rightarrow>
   'x NimbleServerParticipants \<Rightarrow> (int \<times> 'x NimbleServerLocalParties \<times> 'x NimbleServerParticipants) option" where
  "preparePartiesFrom E stepId infos i 0 lps ps = Some (0, lps, ps)"
| "preparePartiesFrom E stepId infos i (Suc n) lps ps = do {
     info \<leftarrow> readAt infos i;
     (err, _, lps1, ps1) \<leftarrow> nimbleServerLocalPartiesPrepare E lps ps stepId info;
     if err < 0 then Some (err, lps1, ps1) else preparePartiesFrom E stepId infos (Suc i) n lps1 ps1
   }"

text \<open>The loop over \<open>uint8_t i\<close> ends only if the capacity is at most 255.\<close>

definition refillFreeList ::
  "clog \<Rightarrow> NimbleSerializeLocalPartyInfo list \<Rightarrow> size_t \<Rightarrow> size_t \<Rightarrow> NimbleServerCircularBuffer \<Rightarrow>
   NimbleServerCircularBuffer option" where
  "refillFreeList c infos partyCount capacity fl =
     (if capacity > 255 then None
      else runAll (\<lambda>fl i. do {
          found \<leftarrow> containsParticipantId infos partyCount (of_nat i);
          if found then Some fl else nimbleServerCircularBufferWrite c fl (of_nat i)
        }) (nimbleServerCircularBufferInit fl) [0..<unat capacity])"

definition nimbleServerHostMigration ::
  "'x Env \<Rightarrow> 'x NimbleServer \<Rightarrow> NimbleSerializeLocalPartyInfo list \<Rightarrow> size_t \<Rightarrow> (int \<times> 'x NimbleServer) option" where
  "nimbleServerHostMigration E self localPartyInfos localPartyCount = do {
     lps0 \<leftarrow> nimbleServerLocalPartiesReset (localParties self);
     (err, lps, ps) \<leftarrow> preparePartiesFrom E (expectedWriteId (authoritativeSteps (game self)) - 1) localPartyInfos 0
       (unat localPartyCount) lps0 (gameParticipants (game self));
     let self1 = self\<lparr>localParties := lps, game := (game self)\<lparr>gameParticipants := ps\<rparr>\<rparr>;
     if err < 0 then Some (err, self1)
     else do {
       fl \<leftarrow> refillFreeList (clogMode E) localPartyInfos localPartyCount (participantCapacity ps) (freeList ps);
       Some (0, self\<lparr>localParties := lps, game := (game self)\<lparr>gameParticipants := ps\<lparr>freeList := fl\<rparr>\<rparr>\<rparr>)
     }
   }"

section \<open>Notifications of the transport\<close>

definition nimbleServerConnectionConnected :: "'x NimbleServer \<Rightarrow> u8 \<Rightarrow> (int \<times> 'x NimbleServer) option" where
  "nimbleServerConnectionConnected self connectionIndex = do {
     tc \<leftarrow> readAt (transportConnections self) (unat connectionIndex);
     if tcIsUsed tc then Some (-44, self)
     else Some (0, setConnection self (unat connectionIndex) (tc\<lparr>tcIsUsed := True\<rparr>))
   }"

definition nimbleServerConnectionDisconnected ::
  "clog \<Rightarrow> 'x NimbleServer \<Rightarrow> u8 \<Rightarrow> (int \<times> 'x NimbleServer) option" where
  "nimbleServerConnectionDisconnected c self connectionIndex = do {
     i \<leftarrow> nimbleServerLocalPartiesFindParty c (localParties self) connectionIndex;
     foundConnection \<leftarrow> readAt (parties (localParties self)) i;
     if \<not> lpIsUsed foundConnection then Some (-4, self)
     else do {
       tc \<leftarrow> readAt (transportConnections self) (unat connectionIndex);
       Some (0, (setConnection self (unat connectionIndex) (tc\<lparr>tcOrderedDatagramInLogic :=
           (tcOrderedDatagramInLogic tc)\<lparr>hasReceivedInitialDatagram := False\<rparr>\<rparr>))
         \<lparr>localParties := (localParties self)\<lparr>parties := (parties (localParties self))[i :=
           foundConnection\<lparr>lpId := 0xff, lpIsUsed := False\<rparr>]\<rparr>\<rparr>)
     }
   }"

definition nimbleServerReset :: "'x NimbleServer \<Rightarrow> 'x NimbleServer" where
  "nimbleServerReset self = self"

end
