(* ===== verification/ServerTick.thy ===== *)
theory ServerTick
  imports Server
begin

text \<open>
  What the tick does to the server (\<open>tickParties\<close> of \<open>src/src/lib/server.c\<close>): every party is ticked,
  and a party that waited too long for its client to come back is dissolved. The theorems are about the
  build in which diagnostics do not stop the process.
\<close>

section \<open>Specification\<close>

text \<open>
  \<open>statesOnly\<close>: two arrays of participants that differ in the states only. \<open>waitedTooLong\<close>: a party that
  the next tick gives up.
\<close>

definition statesOnly :: "'x NimbleServerParticipant list \<Rightarrow> 'x NimbleServerParticipant list \<Rightarrow> bool" where
  "statesOnly ps qs \<longleftrightarrow> length qs = length ps \<and> (\<forall>k < length ps. \<exists>st. qs ! k = (ps ! k)\<lparr>pState := st\<rparr>)"

definition waitedTooLong :: "'x NimbleServerLocalParty \<Rightarrow> bool" where
  "waitedTooLong p \<longleftrightarrow> lpState p = NimbleServerLocalPartyStateWaitingForReJoin \<and>
     \<not> lpWaitingForReconnectTimer p + 1 < lpWaitingForReconnectMaxTimer p"

text \<open>
  \<open>tickedAt i self self'\<close>: what one round for the party at \<open>i\<close> may do to the server. \<open>givesUp\<close>: the party
  at \<open>i\<close> is in use and waited too long.
\<close>

definition givesUp :: "'x NimbleServer \<Rightarrow> nat \<Rightarrow> bool" where
  "givesUp self i \<longleftrightarrow> i \<in> usedParties (localParties self) \<and> waitedTooLong (parties (localParties self) ! i)"

definition partyMembers :: "'x NimbleServer \<Rightarrow> nat \<Rightarrow> nat set" where
  "partyMembers self i = refIndices (lpReferences (parties (localParties self) ! i))"

definition leavingAt :: "'x NimbleServer \<Rightarrow> nat \<Rightarrow> bool" where
  "leavingAt self k \<longleftrightarrow> isLeaving (participants (gameParticipants (game self)) ! k)"

definition tickedAt :: "nat \<Rightarrow> 'x NimbleServer \<Rightarrow> 'x NimbleServer \<Rightarrow> bool" where
  "tickedAt i self self' \<longleftrightarrow> serverWf self' \<and>
     capacityCount (localParties self') = capacityCount (localParties self) \<and>
     length (parties (localParties self')) = length (parties (localParties self)) \<and>
     (\<forall>j. j \<noteq> i \<longrightarrow> parties (localParties self') ! j = parties (localParties self) ! j) \<and>
     usedParties (localParties self') = {j \<in> usedParties (localParties self). j = i \<longrightarrow> \<not> givesUp self i} \<and>
     length (participants (gameParticipants (game self'))) = length (participants (gameParticipants (game self))) \<and>
     (\<forall>k < length (participants (gameParticipants (game self))).
        leavingAt self' k \<longleftrightarrow> leavingAt self k \<or> givesUp self i \<and> k \<in> partyMembers self i) \<and>
     (\<forall>t < length (transportConnections self). tcIsUsed (transportConnections self' ! t) \<longleftrightarrow>
        tcIsUsed (transportConnections self ! t) \<and>
        \<not> (givesUp self i \<and> lpTransportConnection (parties (localParties self) ! i) = Some t))"

section \<open>Lemmas\<close>

lemma statesOnly_fields:
  assumes "statesOnly ps qs" "k < length ps"
  shows "pIsUsed (qs ! k) = pIsUsed (ps ! k)" "pId (qs ! k) = pId (ps ! k)" "pInParty (qs ! k) = pInParty (ps ! k)"
  using assms unfolding statesOnly_def by force+

lemma sessionWf_states:
  assumes wf: "sessionWf lps ps" and st: "statesOnly (participants ps) qs"
    and stay: "\<forall>i \<in> usedParties lps. \<forall>k \<in> refIndices (lpReferences (parties lps ! i)).
      pState (qs ! k) \<noteq> NimbleServerParticipantStateLeaving"
  shows "sessionWf lps (ps\<lparr>participants := qs\<rparr>)"
proof -
  have len: "length qs = length (participants ps)" using st by (simp add: statesOnly_def)
  note f = statesOnly_fields [OF st]
  have "partiesOwn lps qs"
    unfolding partiesOwn_def
  proof
    fix i
    assume i: "i \<in> usedParties lps"
    then have "partyOwns (participants ps) i (parties lps ! i)" using wf by (simp add: sessionWf_def partiesOwn_def)
    then show "partyOwns qs i (parties lps ! i)"
      using f len stay i refIndices_in_range by (auto simp: partyOwns_def)
  qed
  moreover have "participantsHaveParty (length (parties lps)) qs"
    using wf f len by (simp add: sessionWf_def participantsHaveParty_def all_set_conv_all_nth)
  moreover have "participantsWf (ps\<lparr>participants := qs\<rparr>)"
    using participantsWf_same(1) [of ps qs] wf len f by (simp add: sessionWf_def)
  ultimately show ?thesis using wf len by (simp add: sessionWf_def)
qed

lemma statesOnly_refl: "statesOnly (ps :: 'x NimbleServerParticipant list) ps"
proof -
  have "\<exists>st. p = p\<lparr>pState := st\<rparr>" for p :: "'x NimbleServerParticipant" by (rule exI [of _ "pState p"]) simp
  then show ?thesis by (simp add: statesOnly_def)
qed

lemma forEachReferenced_state:
  assumes "refsValid (length ps) refs"
  shows "\<exists>qs. forEachReferenced (\<lambda>p. p\<lparr>pState := st\<rparr>) refs ps = Some qs \<and> statesOnly ps qs \<and>
    (\<forall>k < length ps. qs ! k = (if k \<in> refIndices refs then (ps ! k)\<lparr>pState := st\<rparr> else ps ! k))"
proof -
  obtain qs where qs: "forEachReferenced (\<lambda>p. p\<lparr>pState := st\<rparr>) refs ps = Some qs" "length qs = length ps"
    "\<forall>k < length ps. qs ! k = (if k \<in> refIndices refs then (ps ! k)\<lparr>pState := st\<rparr> else ps ! k)"
    using forEachReferenced_spec [OF assms, of "\<lambda>p. p\<lparr>pState := st\<rparr>"] by auto
  have "\<exists>s. qs ! k = (ps ! k)\<lparr>pState := s\<rparr>" if "k < length ps" for k
    using qs(3) that by (cases "k \<in> refIndices refs") (auto intro: exI [of _ "pState (ps ! k)"])
  with qs show ?thesis by (auto simp: statesOnly_def)
qed

text \<open>A tick of one party keeps what ties it to its participants and its connection.\<close>

lemma partyTick_run:
  assumes "refsValid (length ps) (lpReferences p)"
  shows "\<exists>p' qs. nimbleServerLocalPartyTick ps p = Some (\<not> waitedTooLong p, p', qs) \<and>
    lpIsUsed p' = lpIsUsed p \<and> lpReferences p' = lpReferences p \<and> lpTransportConnection p' = lpTransportConnection p \<and>
    lpId p' = lpId p \<and> statesOnly ps qs \<and> (waitedTooLong p \<longrightarrow> qs = ps) \<and>
    (\<forall>k < length ps. qs ! k = ps ! k \<or>
       k \<in> refIndices (lpReferences p) \<and> pState (qs ! k) = NimbleServerParticipantStateWaitingForRejoin)"
proof (cases "lpState p")
  case NimbleServerLocalPartyStateNormal
  let ?dq = "snd (nimbleServerConnectionQualityDelayedTick (lpDelayedQuality p) (lpQuality p))"
  let ?p1 = "p\<lparr>lpDelayedQuality := ?dq\<rparr>"
  obtain qs where qs: "forEachReferenced (\<lambda>p. p\<lparr>pState := NimbleServerParticipantStateWaitingForRejoin\<rparr>) (lpReferences p) ps = Some qs"
    "statesOnly ps qs" "\<forall>k < length ps. qs ! k = (if k \<in> refIndices (lpReferences p)
       then (ps ! k)\<lparr>pState := NimbleServerParticipantStateWaitingForRejoin\<rparr> else ps ! k)"
    using forEachReferenced_state [OF assms] by blast
  have "\<not> waitedTooLong p" using NimbleServerLocalPartyStateNormal by (simp add: waitedTooLong_def)
  with NimbleServerLocalPartyStateNormal qs statesOnly_refl [of ps] show ?thesis
    by (simp add: nimbleServerLocalPartyTick_def tickNormal_def setToWaitingForReJoin_def split_beta Let_def)
next
  case NimbleServerLocalPartyStateWaitingForReJoin
  with statesOnly_refl [of ps] show ?thesis
    by (simp add: nimbleServerLocalPartyTick_def tickWaitingForReconnect_def waitedTooLong_def Let_def)
next
  case NimbleServerLocalPartyStateDissolved
  with statesOnly_refl [of ps] show ?thesis by (simp add: nimbleServerLocalPartyTick_def waitedTooLong_def)
qed

lemma sessionWf_removed:
  assumes wf: "sessionWf lps ps" and i: "i \<in> usedParties lps"
  shows "\<exists>lps'. nimbleServerLocalPartiesRemove c lps i = Some lps' \<and> sessionWf lps' ps \<and>
    usedParties lps' = usedParties lps - {i} \<and>
    parties lps' = (parties lps)[i := nimbleServerLocalPartyReset (parties lps ! i)] \<and> capacityCount lps' = capacityCount lps"
proof -
  obtain lps' where r: "nimbleServerLocalPartiesRemove c lps i = Some lps'" "partiesShape lps'"
    "usedParties lps' = usedParties lps - {i}"
    "parties lps' = (parties lps)[i := nimbleServerLocalPartyReset (parties lps ! i)]" "capacityCount lps' = capacityCount lps"
    using localPartiesRemove_used [OF wf i] by blast
  have "partiesOwn lps' (participants ps)"
    using wf r(3,4) by (auto simp: sessionWf_def partiesOwn_def)
  moreover have "partiesRefs (length (participants ps)) (parties lps')"
    unfolding r(4) using wf
    by (intro partiesRefs_update) (simp_all add: sessionWf_def nimbleServerLocalPartyReset_def refsValid_def)
  ultimately have "sessionWf lps' ps" using wf r(2,4) by (simp add: sessionWf_def)
  with r show ?thesis by blast
qed

lemma owned_disjoint:
  assumes "sessionWf lps ps" "i \<in> usedParties lps" "j \<in> usedParties lps" "i \<noteq> j"
  shows "refIndices (lpReferences (parties lps ! i)) \<inter> refIndices (lpReferences (parties lps ! j)) = {}"
proof -
  have "partyOwns (participants ps) i (parties lps ! i)" "partyOwns (participants ps) j (parties lps ! j)"
    using assms by (simp_all add: sessionWf_def partiesOwn_def)
  with assms(4) show ?thesis by (auto simp: partyOwns_def)
qed

lemma destroyParty_run:
  assumes wf: "sessionWf lps ps" and i: "i \<in> usedParties lps"
  shows "\<exists>lps' qs. destroyParty c lps (participants ps) i = Some (lps', qs) \<and> sessionWf lps' (ps\<lparr>participants := qs\<rparr>) \<and>
    statesOnly (participants ps) qs \<and> usedParties lps' = usedParties lps - {i} \<and>
    length (parties lps') = length (parties lps) \<and> capacityCount lps' = capacityCount lps \<and>
    (\<forall>j. j \<noteq> i \<longrightarrow> parties lps' ! j = parties lps ! j) \<and>
    lpTransportConnection (parties lps' ! i) = lpTransportConnection (parties lps ! i) \<and>
    (\<forall>k < length qs. if k \<in> refIndices (lpReferences (parties lps ! i))
       then isLeaving (qs ! k) else qs ! k = participants ps ! k)"
proof -
  let ?p = "nimbleServerLocalPartyDestroy (parties lps ! i)"
  let ?lps = "lps\<lparr>parties := (parties lps)[i := ?p]\<rparr>"
  have il: "i < length (parties lps)" and iu: "lpIsUsed (parties lps ! i)" using i by (auto simp: usedParties_def)
  have p: "lpIsUsed ?p = lpIsUsed (parties lps ! i)" "lpReferences ?p = lpReferences (parties lps ! i)"
    "lpTransportConnection ?p = lpTransportConnection (parties lps ! i)"
    by (simp_all add: nimbleServerLocalPartyDestroy_def)
  have wf1: "sessionWf ?lps ps" by (rule sessionWf_party [OF wf il p(1,2)])
  have used1: "usedParties ?lps = usedParties lps" using il iu p(1) i by (simp add: usedParties_set insert_absorb)
  obtain lps' where r: "nimbleServerLocalPartiesRemove c ?lps i = Some lps'" "sessionWf lps' ps"
    "usedParties lps' = usedParties lps - {i}" "parties lps' = (parties ?lps)[i := nimbleServerLocalPartyReset (parties ?lps ! i)]"
    "capacityCount lps' = capacityCount ?lps"
    using sessionWf_removed [OF wf1, of i c] i used1 by auto
  have valid: "refsValid (length (participants ps)) (lpReferences ?p)"
    using wf i p(2) by (simp add: sessionWf_def partiesOwn_def partyOwns_def)
  obtain qs where qs: "markReferencesAsLeaving (lpReferences ?p) (participants ps) = Some qs" "statesOnly (participants ps) qs"
    "\<forall>k < length (participants ps). qs ! k = (if k \<in> refIndices (lpReferences ?p)
       then nimbleServerParticipantMarkAsLeaving (participants ps ! k) else participants ps ! k)"
    using forEachReferenced_state [OF valid, of NimbleServerParticipantStateLeaving]
    unfolding markReferencesAsLeaving_def nimbleServerParticipantMarkAsLeaving_def by blast
  have "pState (qs ! k) \<noteq> NimbleServerParticipantStateLeaving"
    if "j \<in> usedParties lps'" "k \<in> refIndices (lpReferences (parties lps' ! j))" for j k
  proof -
    have j: "j \<in> usedParties lps" "j \<noteq> i" "k \<in> refIndices (lpReferences (parties lps ! j))" using that r(3,4) by auto
    then have "partyOwns (participants ps) j (parties lps ! j)" using wf by (simp add: sessionWf_def partiesOwn_def)
    moreover have "k \<notin> refIndices (lpReferences ?p)"
      using owned_disjoint [OF wf j(1) i j(2)] j(3) p(2) by auto
    ultimately show ?thesis
      using qs(3) j(3) refIndices_in_range [of "length (participants ps)"] by (auto simp: partyOwns_def)
  qed
  then have wf': "sessionWf lps' (ps\<lparr>participants := qs\<rparr>)" by (intro sessionWf_states [OF r(2) qs(2)]) blast
  have "destroyParty c lps (participants ps) i = Some (lps', qs)"
    using il qs(1) r(1) by (simp add: destroyParty_def)
  moreover have "lpTransportConnection (parties lps' ! i) = lpTransportConnection (parties lps ! i)"
    using r(4) il p(3) by (simp add: nimbleServerLocalPartyReset_def)
  moreover have "\<forall>k < length qs. if k \<in> refIndices (lpReferences (parties lps ! i))
       then isLeaving (qs ! k) else qs ! k = participants ps ! k"
    using qs(2,3) p(2) by (simp add: statesOnly_def isLeaving_def nimbleServerParticipantMarkAsLeaving_def)
  ultimately show ?thesis using wf' qs(2) r(3-5) by simp
qed

text \<open>The joint change of parties and participants by one round of the tick.\<close>

lemma sessionWf_ticked:
  assumes wf: "sessionWf lps ps" and i: "i \<in> usedParties lps"
    and p: "lpIsUsed p = lpIsUsed (parties lps ! i)" "lpReferences p = lpReferences (parties lps ! i)"
    and st: "statesOnly (participants ps) qs"
    and ch: "\<forall>k < length (participants ps). qs ! k = participants ps ! k \<or>
      k \<in> refIndices (lpReferences (parties lps ! i)) \<and> pState (qs ! k) = NimbleServerParticipantStateWaitingForRejoin"
  shows "sessionWf (lps\<lparr>parties := (parties lps)[i := p]\<rparr>) (ps\<lparr>participants := qs\<rparr>)"
    "usedParties (lps\<lparr>parties := (parties lps)[i := p]\<rparr>) = usedParties lps"
proof -
  have il: "i < length (parties lps)" "lpIsUsed (parties lps ! i)" using i by (auto simp: usedParties_def)
  have "pState (qs ! k) \<noteq> NimbleServerParticipantStateLeaving"
    if "j \<in> usedParties lps" "k \<in> refIndices (lpReferences (parties lps ! j))" for j k
  proof -
    have "partyOwns (participants ps) j (parties lps ! j)" using wf that by (simp add: sessionWf_def partiesOwn_def)
    then have "k < length (participants ps)" "pState (participants ps ! k) \<noteq> NimbleServerParticipantStateLeaving"
      using that refIndices_in_range by (auto simp: partyOwns_def)
    with ch show ?thesis by fastforce
  qed
  then have "sessionWf lps (ps\<lparr>participants := qs\<rparr>)" by (intro sessionWf_states [OF wf st]) blast
  then show "sessionWf (lps\<lparr>parties := (parties lps)[i := p]\<rparr>) (ps\<lparr>participants := qs\<rparr>)"
    by (rule sessionWf_party [OF _ il(1) p])
  show "usedParties (lps\<lparr>parties := (parties lps)[i := p]\<rparr>) = usedParties lps"
    using il p(1) i by (simp add: usedParties_set insert_absorb)
qed

lemma serverWf_withSession:
  assumes "serverWf self" "sessionWf lps' ((gameParticipants (game self))\<lparr>participants := qs\<rparr>)"
    "length (parties lps') = length (parties (localParties self))"
    "\<And>j t. j < length (parties lps') \<Longrightarrow> lpTransportConnection (parties lps' ! j) = Some t \<Longrightarrow>
       t < length (transportConnections self)"
  shows "serverWf (withSession self lps' qs)"
  unfolding withSession_def using assms by (intro serverWf_parties) simp_all

lemma serverWf_freeList:
  assumes "serverWf self" "cbInvar fl" "\<forall>x \<in> set (cbContents fl). unat x < length (transportConnections self)"
  shows "serverWf (self\<lparr>freeTransportConnectionList := fl\<rparr>)"
proof -
  have "connectionTable (self\<lparr>freeTransportConnectionList := fl\<rparr>)"
    using assms unfolding serverWf_def connectionTable_def by auto
  with assms(1) show ?thesis by (simp add: serverWf_def)
qed

lemma disconnect_run:
  assumes wf: "serverWf self" and t: "t < length (transportConnections self)"
  shows "\<exists>self'. disconnectTransportConnection ClogOff self t = Some self' \<and> serverWf self' \<and>
    localParties self' = localParties self \<and> game self' = game self \<and>
    \<not> tcIsUsed (transportConnections self' ! t) \<and> tcPhase (transportConnections self' ! t) = NbTransportConnectionPhaseDisconnected \<and>
    (\<forall>m. m \<noteq> t \<longrightarrow> transportConnections self' ! m = transportConnections self ! m)"
proof -
  let ?tc = "transportConnections self ! t"
  have tab: "connectionTable self" and con: "connectionWf (localParties self) ?tc" using wf t by (simp_all add: serverWf_def)
  then have inv: "cbInvar (freeTransportConnectionList self)" by (simp add: connectionTable_def)
  obtain fl where fl: "nimbleServerCircularBufferWrite ClogOff (freeTransportConnectionList self) (tcId ?tc) = Some fl"
    "cbInvar fl" "set (cbContents fl) \<subseteq> insert (tcId ?tc) (set (cbContents (freeTransportConnectionList self)))"
    using cbWrite_off [OF inv] by blast
  let ?S = "self\<lparr>transportConnections := (transportConnections self)[t := transportConnectionDisconnect ?tc]\<rparr>"
  have "serverWf ?S"
    using con t by (intro serverWf_connection [OF wf]) (simp_all add: transportConnectionDisconnect_def connectionWf_def servesParty_def)
  moreover have "\<forall>x \<in> set (cbContents fl). unat x < length (transportConnections self)"
    using fl(3) tab con by (auto simp: connectionTable_def connectionWf_def)
  ultimately have "serverWf (?S\<lparr>freeTransportConnectionList := fl\<rparr>)"
    using fl(2) by (intro serverWf_freeList) simp_all
  moreover have "disconnectTransportConnection ClogOff self t = Some (?S\<lparr>freeTransportConnectionList := fl\<rparr>)"
    using t fl(1) by (simp add: disconnectTransportConnection_def)
  ultimately show ?thesis using t by (simp add: transportConnectionDisconnect_def)
qed

lemma tickParty_unused:
  assumes "serverWf self" "i < length (parties (localParties self))" "i \<notin> usedParties (localParties self)"
  shows "tickParty c self i = Some self \<and> tickedAt i self self"
  using assms by (auto simp: tickParty_def tickedAt_def usedParties_def givesUp_def)

lemma tickParty_keeps:
  fixes self :: "'x NimbleServer"
  assumes wf: "serverWf self" and i: "i \<in> usedParties (localParties self)" and keep: "\<not> givesUp self i"
  shows "\<exists>self'. tickParty c self i = Some self' \<and> tickedAt i self self'"
proof -
  let ?lps = "localParties self" and ?ps = "gameParticipants (game self)"
  let ?p = "parties ?lps ! i"
  have ses: "sessionWf ?lps ?ps" by (rule serverWf_session [OF wf])
  have il: "i < length (parties ?lps)" "lpIsUsed ?p" using i by (auto simp: usedParties_def)
  have nw: "\<not> waitedTooLong ?p" using keep i by (simp add: givesUp_def)
  have own: "partyOwns (participants ?ps) i ?p" using ses i by (simp add: sessionWf_def partiesOwn_def)
  then have valid: "refsValid (length (participants ?ps)) (lpReferences ?p)" by (simp add: partyOwns_def)
  obtain p' qs where tick: "nimbleServerLocalPartyTick (participants ?ps) ?p = Some (True, p', qs)"
    and p': "lpIsUsed p' = lpIsUsed ?p" "lpReferences p' = lpReferences ?p" "lpTransportConnection p' = lpTransportConnection ?p"
    and qs: "statesOnly (participants ?ps) qs"
    and ch: "\<forall>k < length (participants ?ps). qs ! k = participants ?ps ! k \<or>
        k \<in> refIndices (lpReferences ?p) \<and> pState (qs ! k) = NimbleServerParticipantStateWaitingForRejoin"
    using partyTick_run [OF valid] nw by auto
  let ?lps' = "?lps\<lparr>parties := (parties ?lps)[i := p']\<rparr>"
  let ?S = "withSession self ?lps' qs"
  note ticked = sessionWf_ticked [OF ses i p'(1,2) qs ch]
  have run: "tickParty c self i = Some ?S" using il tick by (simp add: tickParty_def)
  have wf': "serverWf ?S"
  proof (rule serverWf_withSession [OF wf ticked(1)])
    show "t < length (transportConnections self)"
      if "j < length (parties ?lps')" "lpTransportConnection (parties ?lps' ! j) = Some t" for j t
      using that il p'(3) serverWf_link [OF wf, of j t] by (cases "j = i") simp_all
  qed simp
  have stay: "isLeaving (qs ! k) = isLeaving (participants ?ps ! k)" if "k < length (participants ?ps)" for k
    using ch that own by (force simp: isLeaving_def partyOwns_def)
  have "tickedAt i self ?S"
    unfolding tickedAt_def using wf' ticked(2) stay qs keep
    by (simp add: withSession_def leavingAt_def statesOnly_def)
  with run show ?thesis by blast
qed

text \<open>
  A party that waited too long is dissolved: its participants are marked as leaving, and what is left of
  the round is to disconnect the connection it was served by.
\<close>

lemma tickParty_dissolves:
  fixes self :: "'x NimbleServer"
  assumes wf: "serverWf self" and up: "givesUp self i"
  obtains lps2 qs where "serverWf (withSession self lps2 qs)" "statesOnly (participants (gameParticipants (game self))) qs"
    "usedParties lps2 = usedParties (localParties self) - {i}" "length (parties lps2) = length (parties (localParties self))"
    "capacityCount lps2 = capacityCount (localParties self)"
    "\<forall>j. j \<noteq> i \<longrightarrow> parties lps2 ! j = parties (localParties self) ! j"
    "\<forall>k < length (participants (gameParticipants (game self))). isLeaving (qs ! k) \<longleftrightarrow>
       isLeaving (participants (gameParticipants (game self)) ! k) \<or> k \<in> refIndices (lpReferences (parties (localParties self) ! i))"
    "tickParty ClogOff self i = (case lpTransportConnection (parties (localParties self) ! i) of None \<Rightarrow> Some (withSession self lps2 qs)
       | Some t \<Rightarrow> disconnectTransportConnection ClogOff (withSession self lps2 qs) t)"
proof -
  let ?lps = "localParties self" and ?ps = "gameParticipants (game self)"
  let ?p = "parties ?lps ! i"
  have i: "i \<in> usedParties ?lps" and w: "waitedTooLong ?p" using up by (auto simp: givesUp_def)
  have ses: "sessionWf ?lps ?ps" by (rule serverWf_session [OF wf])
  have il: "i < length (parties ?lps)" "lpIsUsed ?p" using i by (auto simp: usedParties_def)
  have valid: "refsValid (length (participants ?ps)) (lpReferences ?p)"
    using ses i by (simp add: sessionWf_def partiesOwn_def partyOwns_def)
  obtain p' where tick: "nimbleServerLocalPartyTick (participants ?ps) ?p = Some (False, p', participants ?ps)"
    and p': "lpIsUsed p' = lpIsUsed ?p" "lpReferences p' = lpReferences ?p" "lpTransportConnection p' = lpTransportConnection ?p"
    using partyTick_run [OF valid] w by auto
  let ?lps1 = "?lps\<lparr>parties := (parties ?lps)[i := p']\<rparr>"
  have ses1: "sessionWf ?lps1 ?ps" by (rule sessionWf_party [OF ses il(1) p'(1,2)])
  have used1: "usedParties ?lps1 = usedParties ?lps" using il p'(1) i by (simp add: usedParties_set insert_absorb)
  obtain lps2 qs where d: "destroyParty ClogOff ?lps1 (participants ?ps) i = Some (lps2, qs)"
    and d1: "sessionWf lps2 (?ps\<lparr>participants := qs\<rparr>)" and d2: "statesOnly (participants ?ps) qs"
    and d3: "usedParties lps2 = usedParties ?lps - {i}" "length (parties lps2) = length (parties ?lps)"
      "capacityCount lps2 = capacityCount ?lps" "\<forall>j. j \<noteq> i \<longrightarrow> parties lps2 ! j = parties ?lps ! j"
    and d4: "lpTransportConnection (parties lps2 ! i) = lpTransportConnection ?p"
    and d5: "\<forall>k < length qs. if k \<in> refIndices (lpReferences ?p) then isLeaving (qs ! k) else qs ! k = participants ?ps ! k"
    using destroyParty_run [OF ses1, of i ClogOff] i used1 il p' by auto
  let ?S = "withSession self lps2 qs"
  have wf': "serverWf ?S"
  proof (rule serverWf_withSession [OF wf d1 d3(2)])
    show "t < length (transportConnections self)"
      if "j < length (parties lps2)" "lpTransportConnection (parties lps2 ! j) = Some t" for j t
      using that d3(2,4) d4 serverWf_link [OF wf, of j t] by (cases "j = i") simp_all
  qed
  have leave: "\<forall>k < length (participants ?ps). isLeaving (qs ! k) \<longleftrightarrow> isLeaving (participants ?ps ! k) \<or> k \<in> refIndices (lpReferences ?p)"
  proof (intro allI impI)
    fix k
    assume "k < length (participants ?ps)"
    with d2 d5 have "if k \<in> refIndices (lpReferences ?p) then isLeaving (qs ! k) else qs ! k = participants ?ps ! k"
      by (simp add: statesOnly_def)
    then show "isLeaving (qs ! k) \<longleftrightarrow> isLeaving (participants ?ps ! k) \<or> k \<in> refIndices (lpReferences ?p)"
      by (cases "k \<in> refIndices (lpReferences ?p)") simp_all
  qed
  have base: "tickParty ClogOff self i = (case lpTransportConnection ?p of None \<Rightarrow> Some ?S
      | Some t \<Rightarrow> disconnectTransportConnection ClogOff ?S t)"
    using il tick d d3(2) d4 by (simp add: tickParty_def)
  from that [OF wf' d2 d3 leave base] show thesis .
qed

lemma tickParty_givesUp:
  fixes self :: "'x NimbleServer"
  assumes wf: "serverWf self" and up: "givesUp self i"
  shows "\<exists>self'. tickParty ClogOff self i = Some self' \<and> tickedAt i self self'"
proof -
  let ?lps = "localParties self" and ?ps = "gameParticipants (game self)"
  let ?p = "parties ?lps ! i"
  have il: "i < length (parties ?lps)" using up by (auto simp: givesUp_def usedParties_def)
  obtain lps2 qs where wf': "serverWf (withSession self lps2 qs)" and d2: "statesOnly (participants ?ps) qs"
    and d3: "usedParties lps2 = usedParties ?lps - {i}" "length (parties lps2) = length (parties ?lps)"
      "capacityCount lps2 = capacityCount ?lps" "\<forall>j. j \<noteq> i \<longrightarrow> parties lps2 ! j = parties ?lps ! j"
    and leave: "\<forall>k < length (participants ?ps). isLeaving (qs ! k) \<longleftrightarrow>
        isLeaving (participants ?ps ! k) \<or> k \<in> refIndices (lpReferences ?p)"
    and base: "tickParty ClogOff self i = (case lpTransportConnection ?p of None \<Rightarrow> Some (withSession self lps2 qs)
        | Some t \<Rightarrow> disconnectTransportConnection ClogOff (withSession self lps2 qs) t)"
    by (rule tickParty_dissolves [OF wf up])
  let ?S = "withSession self lps2 qs"
  show ?thesis
  proof (cases "lpTransportConnection ?p")
    case None
    have "tickedAt i self ?S"
      unfolding tickedAt_def using wf' d2 d3 leave up None
      by (auto simp: withSession_def leavingAt_def statesOnly_def partyMembers_def)
    with base None show ?thesis by simp
  next
    case (Some t)
    have t: "t < length (transportConnections ?S)" using serverWf_link [OF wf il Some] by (simp add: withSession_def)
    obtain self' where self': "disconnectTransportConnection ClogOff ?S t = Some self'" "serverWf self'"
      "localParties self' = localParties ?S" "game self' = game ?S" "\<not> tcIsUsed (transportConnections self' ! t)"
      "\<forall>m. m \<noteq> t \<longrightarrow> transportConnections self' ! m = transportConnections ?S ! m"
      using disconnect_run [OF wf' t] by blast
    have tcs: "\<forall>m. m \<noteq> t \<longrightarrow> transportConnections self' ! m = transportConnections self ! m"
      using self'(6) by (simp add: withSession_def)
    have "tickedAt i self self'"
      unfolding tickedAt_def using self'(2,5) tcs d2 d3 leave up Some
      by (auto simp: self'(3,4) withSession_def leavingAt_def statesOnly_def partyMembers_def)
    with base Some self'(1) show ?thesis by simp
  qed
qed

lemma tickParty_run:
  assumes "serverWf self" "i < length (parties (localParties self))"
  shows "\<exists>self'. tickParty ClogOff self i = Some self' \<and> tickedAt i self self'"
proof (cases "i \<in> usedParties (localParties self)")
  case False
  with tickParty_unused [OF assms] show ?thesis by blast
next
  case True
  with tickParty_keeps [OF assms(1) True] tickParty_givesUp [OF assms(1)] show ?thesis by blast
qed

text \<open>The first \<open>n\<close> rounds of the tick.\<close>

lemma tickParties_prefix:
  fixes self :: "'x NimbleServer"
  assumes wf: "serverWf self" and n: "n \<le> length (parties (localParties self))"
  shows "\<exists>self'. runAll (tickParty ClogOff) self [0..<n] = Some self' \<and> serverWf self' \<and>
    capacityCount (localParties self') = capacityCount (localParties self) \<and>
    length (parties (localParties self')) = length (parties (localParties self)) \<and>
    (\<forall>j \<ge> n. parties (localParties self') ! j = parties (localParties self) ! j) \<and>
    usedParties (localParties self') = {j \<in> usedParties (localParties self). j < n \<longrightarrow> \<not> givesUp self j} \<and>
    length (participants (gameParticipants (game self'))) = length (participants (gameParticipants (game self))) \<and>
    (\<forall>k < length (participants (gameParticipants (game self))).
       leavingAt self' k \<longleftrightarrow> leavingAt self k \<or> (\<exists>j < n. givesUp self j \<and> k \<in> partyMembers self j)) \<and>
    (\<forall>t < length (transportConnections self). tcIsUsed (transportConnections self' ! t) \<longleftrightarrow>
       tcIsUsed (transportConnections self ! t) \<and>
       \<not> (\<exists>j < n. givesUp self j \<and> lpTransportConnection (parties (localParties self) ! j) = Some t))"
  using n
proof (induction n)
  case 0
  with wf show ?case by simp
next
  case (Suc n)
  then obtain S where S: "runAll (tickParty ClogOff) self [0..<n] = Some S" "serverWf S"
    "capacityCount (localParties S) = capacityCount (localParties self)"
    "length (parties (localParties S)) = length (parties (localParties self))"
    and same: "\<forall>j \<ge> n. parties (localParties S) ! j = parties (localParties self) ! j"
    and used: "usedParties (localParties S) = {j \<in> usedParties (localParties self). j < n \<longrightarrow> \<not> givesUp self j}"
    and len: "length (participants (gameParticipants (game S))) = length (participants (gameParticipants (game self)))"
    and leave: "\<forall>k < length (participants (gameParticipants (game self))).
       leavingAt S k \<longleftrightarrow> leavingAt self k \<or> (\<exists>j < n. givesUp self j \<and> k \<in> partyMembers self j)"
    and tcs: "\<forall>t < length (transportConnections self). tcIsUsed (transportConnections S ! t) \<longleftrightarrow>
       tcIsUsed (transportConnections self ! t) \<and>
       \<not> (\<exists>j < n. givesUp self j \<and> lpTransportConnection (parties (localParties self) ! j) = Some t)"
    by auto
  have n: "n < length (parties (localParties S))" using Suc.prems S(4) by simp
  obtain S' where S': "tickParty ClogOff S n = Some S'" and tick: "tickedAt n S S'" using tickParty_run [OF S(2) n] by blast
  have up: "givesUp S n \<longleftrightarrow> givesUp self n" "partyMembers S n = partyMembers self n"
    using same used by (auto simp: givesUp_def partyMembers_def)
  have lenT: "length (transportConnections S) = length (transportConnections self)"
    using serverWf_len [OF S(2)] serverWf_len [OF wf] by simp
  have "runAll (tickParty ClogOff) self [0..<Suc n] = Some S'" using S(1) S' by (simp add: runAll_append)
  moreover have "usedParties (localParties S') = {j \<in> usedParties (localParties self). j < Suc n \<longrightarrow> \<not> givesUp self j}"
    using tick up(1) used by (auto simp: tickedAt_def less_Suc_eq)
  moreover have "\<forall>j \<ge> Suc n. parties (localParties S') ! j = parties (localParties self) ! j"
    using tick same by (simp add: tickedAt_def)
  moreover have "\<forall>k < length (participants (gameParticipants (game self))).
       leavingAt S' k \<longleftrightarrow> leavingAt self k \<or> (\<exists>j < Suc n. givesUp self j \<and> k \<in> partyMembers self j)"
    using tick leave len up by (auto simp: tickedAt_def less_Suc_eq)
  moreover have "\<forall>t < length (transportConnections self). tcIsUsed (transportConnections S' ! t) \<longleftrightarrow>
       tcIsUsed (transportConnections self ! t) \<and>
       \<not> (\<exists>j < Suc n. givesUp self j \<and> lpTransportConnection (parties (localParties self) ! j) = Some t)"
    using tick tcs up(1) same lenT by (auto simp: tickedAt_def less_Suc_eq)
  ultimately show ?case using tick S(3,4) len by (simp add: tickedAt_def)
qed

lemma tickParties_run:
  assumes "serverWf self"
  shows "\<exists>self'. tickParties ClogOff self = Some self' \<and> serverWf self' \<and>
    usedParties (localParties self') = {j \<in> usedParties (localParties self). \<not> givesUp self j} \<and>
    (\<forall>k < length (participants (gameParticipants (game self))).
       leavingAt self' k \<longleftrightarrow> leavingAt self k \<or> (\<exists>j. givesUp self j \<and> k \<in> partyMembers self j)) \<and>
    (\<forall>t < length (transportConnections self). tcIsUsed (transportConnections self' ! t) \<longleftrightarrow>
       tcIsUsed (transportConnections self ! t) \<and>
       \<not> (\<exists>j. givesUp self j \<and> lpTransportConnection (parties (localParties self) ! j) = Some t))"
proof -
  let ?n = "length (parties (localParties self))"
  have n: "unat (capacityCount (localParties self)) = ?n"
    using serverWf_session [OF assms] by (simp add: sessionWf_def partiesShape_def)
  have lt: "j < ?n" if "givesUp self j" for j using that by (simp add: givesUp_def usedParties_def)
  obtain self' where run: "runAll (tickParty ClogOff) self [0..<?n] = Some self'" and wf': "serverWf self'"
    and used: "usedParties (localParties self') = {j \<in> usedParties (localParties self). j < ?n \<longrightarrow> \<not> givesUp self j}"
    and leave: "\<forall>k < length (participants (gameParticipants (game self))).
       leavingAt self' k \<longleftrightarrow> leavingAt self k \<or> (\<exists>j < ?n. givesUp self j \<and> k \<in> partyMembers self j)"
    and tcs: "\<forall>t < length (transportConnections self). tcIsUsed (transportConnections self' ! t) \<longleftrightarrow>
       tcIsUsed (transportConnections self ! t) \<and>
       \<not> (\<exists>j < ?n. givesUp self j \<and> lpTransportConnection (parties (localParties self) ! j) = Some t)"
    using tickParties_prefix [OF assms order_refl] by blast
  have "usedParties (localParties self') = {j \<in> usedParties (localParties self). \<not> givesUp self j}"
    using used lt by auto
  moreover have "(\<exists>j < ?n. givesUp self j \<and> P j) \<longleftrightarrow> (\<exists>j. givesUp self j \<and> P j)" for P using lt by blast
  moreover have "tickParties ClogOff self = Some self'" using run by (simp add: tickParties_def n)
  ultimately show ?thesis using wf' leave tcs by simp
qed

section \<open>Properties\<close>

text \<open>
  C5. A tick of the server always completes and keeps it well formed. It dissolves exactly the parties
  in use that waited too long for a rejoin: each participant of such a party is marked as leaving (to be
  announced and removed by the next composed step) and its connection, if it has one, is closed. No other
  participant starts leaving and no other connection is closed.
\<close>

theorem tickParties_dissolves_lost_parties:
  assumes "serverWf self"
  shows "\<exists>self'. tickParties ClogOff self = Some self' \<and> serverWf self' \<and>
    usedParties (localParties self') =
      {j \<in> usedParties (localParties self). \<not> waitedTooLong (parties (localParties self) ! j)} \<and>
    (\<forall>k < length (participants (gameParticipants (game self))).
       leavingAt self' k \<longleftrightarrow> leavingAt self k \<or> (\<exists>j. givesUp self j \<and> k \<in> partyMembers self j)) \<and>
    (\<forall>t < 64. tcIsUsed (transportConnections self' ! t) \<longleftrightarrow> tcIsUsed (transportConnections self ! t) \<and>
       \<not> (\<exists>j. givesUp self j \<and> lpTransportConnection (parties (localParties self) ! j) = Some t))"
proof -
  have "{j \<in> usedParties (localParties self). \<not> waitedTooLong (parties (localParties self) ! j)} =
      {j \<in> usedParties (localParties self). \<not> givesUp self j}" by (auto simp: givesUp_def)
  with tickParties_run [OF assms] serverWf_len [OF assms] show ?thesis by simp
qed

theorem tickParties_dissolves_lost_parties_witness:
  "\<exists>(lps :: demo NimbleServerLocalParties) ps self'. serverWf (demoServer lps ps) \<and> usedParties lps \<noteq> {} \<and>
    tickParties ClogOff (demoServer lps ps) = Some self' \<and> usedParties (localParties self') = {}"
proof -
  obtain lps :: "demo NimbleServerLocalParties" and ps where s: "serverWf (demoServer lps ps)" "length (parties lps) = 2"
      "usedParties lps = {0}"
    using demoParties by blast
  let ?p = "(parties lps ! 0)\<lparr>lpState := NimbleServerLocalPartyStateWaitingForReJoin, lpWaitingForReconnectTimer := 7,
    lpWaitingForReconnectMaxTimer := 8\<rparr>"
  let ?lps = "lps\<lparr>parties := (parties lps)[0 := ?p]\<rparr>"
  have D: "localParties (demoServer l ps) = l" "demoServer l ps = (demoServer m ps)\<lparr>localParties := l\<rparr>"
    for l m by (simp_all add: demoServer_def)
  have l: "0 < length (parties (localParties (demoServer lps ps)))" using s(2) by (simp add: D(1))
  from serverWf_party [OF s(1) l, of ?p] serverWf_link [OF s(1) l]
  have "serverWf ((demoServer lps ps)\<lparr>localParties := ?lps\<rparr>)" unfolding D(1) by simp
  then have wf: "serverWf (demoServer ?lps ps)" by (subst D(2) [where l = ?lps and m = lps])
  have "0 \<in> usedParties lps" using s(3) by simp
  then have "lpIsUsed (parties lps ! 0)" by (simp add: usedParties_def)
  then have used: "usedParties ?lps = {0}" using s(2,3) usedParties_set [of 0 lps ?p] by simp
  have lost: "waitedTooLong (parties ?lps ! 0)" using s(2) by (simp add: waitedTooLong_def nth_list_update)
  from tickParties_dissolves_lost_parties [OF wf] obtain self' where
    t: "tickParties ClogOff (demoServer ?lps ps) = Some self'"
      "usedParties (localParties self') = {j \<in> usedParties ?lps. \<not> waitedTooLong (parties ?lps ! j)}"
    unfolding D(1) by blast
  have "usedParties (localParties self') = {}" unfolding t(2) used using lost by blast
  with wf t(1) used show ?thesis by blast
qed

end
