(* ===== verification/ServerFeed.thy ===== *)
theory ServerFeed
  imports ServerTick
begin

text \<open>
  What a datagram does to the server (\<open>nimbleServerFeed\<close> of \<open>src/src/lib/server.c\<close>): each handler keeps the
  server well formed and moves forward in the datagram, so the loop over the commands ends. The theorems
  are about the build in which diagnostics do not stop the process.
\<close>

section \<open>Specification\<close>

text \<open>
  \<open>advances s s'\<close>: reading moved from \<open>s\<close> to \<open>s'\<close> in the same datagram. \<open>inStreamLaw\<close>: every function of the
  libraries that reads from a stream only moves forward and never past its end, and reading an octet
  where there is one takes one octet. \<open>allocLaw\<close>: an allocation has the size asked for.
\<close>

definition advances :: "'x FldInStream \<Rightarrow> 'x FldInStream \<Rightarrow> bool" where
  "advances s s' \<longleftrightarrow> inSize s' = inSize s \<and>
     (inPos s \<le> inSize s \<longrightarrow> inPos s \<le> inPos s' \<and> inPos s' \<le> inSize s)"

definition inStreamLaw :: "'x Env \<Rightarrow> bool" where
  "inStreamLaw E \<longleftrightarrow> (\<forall>os. inPos (fldInStreamInit E os) \<le> inSize (fldInStreamInit E os)) \<and>
     (\<forall>s. advances s (snd (snd (fldInStreamReadUInt8 E s))) \<and>
          (inPos s < inSize s \<longrightarrow> inPos (snd (snd (fldInStreamReadUInt8 E s))) = inPos s + 1)) \<and>
     (\<forall>s. advances s (snd (snd (fldInStreamReadUInt16 E s)))) \<and>
     (\<forall>s. advances s (snd (snd (nimbleSerializeServerInConnectRequest E s)))) \<and>
     (\<forall>s. advances s (snd (snd (nimbleSerializeServerInJoinGameRequest E s)))) \<and>
     (\<forall>s. advances s (snd (snd (snd (nbsStepsInSerializeHeader E s))))) \<and>
     (\<forall>s i st. advances s (fst (snd (nbsStepsInSerializeSinglePredictedStep E s i st)))) \<and>
     (\<forall>s. advances s (snd (snd (snd (nbsPendingStepsInSerializeHeader E s))))) \<and>
     (\<forall>l s. advances s (snd (snd (orderedDatagramInLogicReceive E l s)))) \<and>
     (\<forall>l s. advances s (snd (snd (blobStreamLogicOutReceive E l s))))"

definition allocLaw :: "'x Env \<Rightarrow> bool" where
  "allocLaw E \<longleftrightarrow> (\<forall>n. length (imprintAllocOctets E n) = unat n)"

definition feedLaws :: "'x Env \<Rightarrow> bool" where
  "feedLaws E \<longleftrightarrow> stepLaws E \<and> inStreamLaw E \<and> serializeLaw E \<and> allocLaw E \<and> clogMode E = ClogOff"

text \<open>
  What the clients ask for: \<open>onePlayerJoins\<close>, every join request is for one player, the only number the
  code supports; \<open>plainJoins\<close>, in addition none of them asks for a party it had before.
\<close>

definition onePlayerJoins :: "'x Env \<Rightarrow> bool" where
  "onePlayerJoins E \<longleftrightarrow> (\<forall>s e jr s1. nimbleSerializeServerInJoinGameRequest E s = (e, jr, s1) \<and> 0 \<le> e \<longrightarrow>
     jrPlayerCount jr = 1 \<and> jrPlayers jr \<noteq> [])"

definition plainJoins :: "'x Env \<Rightarrow> bool" where
  "plainJoins E \<longleftrightarrow> (\<forall>s e jr s1. nimbleSerializeServerInJoinGameRequest E s = (e, jr, s1) \<and> 0 \<le> e \<longrightarrow> plainJoin jr)"

text \<open>A connection that is still the same for the rest of the server.\<close>

definition sameIdentity :: "'x NimbleServerTransportConnection \<Rightarrow> 'x NimbleServerTransportConnection \<Rightarrow> bool" where
  "sameIdentity tc tc' \<longleftrightarrow> tcId tc' = tcId tc \<and> tcAssignedParty tc' = tcAssignedParty tc \<and>
     tcTransportConnectionId tc' = tcTransportConnectionId tc \<and> (gsInvar (tcGameState tc) \<longrightarrow> gsInvar (tcGameState tc'))"

text \<open>
  The loop of \<open>feedLoop\<close> as a condition, a body and an output, over the server, the rest of the datagram
  and the world. \<open>feedReady\<close> is what holds at its head, \<open>octetsLeft\<close> what is left to read.
\<close>

type_synonym 'x feedState = "'x NimbleServer \<times> 'x FldInStream \<times> 'x"

fun feedMore :: "'x feedState \<Rightarrow> bool" where
  "feedMore (self, s, w) \<longleftrightarrow> inPos s \<noteq> inSize s"

fun feedBody :: "'x Env \<Rightarrow> 'x transportOut \<Rightarrow> u8 \<Rightarrow> u16 \<Rightarrow> 'x feedState \<Rightarrow> (int option \<times> 'x feedState) option" where
  "feedBody E send t ct (self, s, w) =
     (let (_, cmd, s1) = fldInStreamReadUInt8 E s in feedCommand E send t ct cmd self s1 w)"

fun feedOut :: "'x feedState \<Rightarrow> 'x NimbleServer \<times> 'x" where
  "feedOut (self, s, w) = (self, w)"

fun octetsLeft :: "'x feedState \<Rightarrow> nat" where
  "octetsLeft (self, s, w) = unat (inSize s - inPos s)"

fun feedRun :: "'x Env \<Rightarrow> 'x transportOut \<Rightarrow> u8 \<Rightarrow> u16 \<Rightarrow> 'x feedState \<Rightarrow> (int \<times> 'x NimbleServer \<times> 'x) option" where
  "feedRun E send t ct (self, s, w) = feedLoop E send t ct self s w"

fun feedReady :: "'x Env \<Rightarrow> u8 \<Rightarrow> 'x feedState \<Rightarrow> bool" where
  "feedReady E t (self, s, w) \<longleftrightarrow> feedLaws E \<and> onePlayerJoins E \<and> serverWf self \<and> unat t < 64 \<and> inPos s \<le> inSize s"

definition feedReadyPlain :: "'x Env \<Rightarrow> u8 \<Rightarrow> 'x feedState \<Rightarrow> bool" where
  "feedReadyPlain E t z \<longleftrightarrow> feedReady E t z \<and> plainJoins E"

text \<open>A concrete environment whose clients only ask for new parties of one player.\<close>

definition demoPlainJoin :: "demo FldInStream \<Rightarrow> int \<times> NimbleSerializeJoinGameRequest \<times> demo FldInStream" where
  "demoPlainJoin s = (let (e, k, s1) = demoRead8 s
     in (e, \<lparr>jrJoinGameType = NimbleSerializeJoinGameTypeNoSecret, jrPartyId = 0, jrSessionSecret = 0, jrPlayerCount = 1,
             jrPlayers = [ucast k], jrNonce = 0\<rparr>, s1))"

definition plainEnv :: "demo Env" where
  "plainEnv = (demoEnv ClogOff)\<lparr>nimbleSerializeServerInJoinGameRequest := demoPlainJoin\<rparr>"

section \<open>A loop over commands\<close>

text \<open>
  The contract between a loop and its body: the body keeps the invariant, and when the loop goes on a
  measure went down. Such a loop keeps the invariant; if the body always returns, so does the loop.
\<close>

locale command_loop =
  fixes more :: "'s \<Rightarrow> bool"
    and body :: "'s \<Rightarrow> ('r option \<times> 's) option"
    and res :: "'s \<Rightarrow> 'o"
    and fin :: 'r
    and loop :: "'s \<Rightarrow> ('r \<times> 'o) option"
    and invar :: "'s \<Rightarrow> bool"
    and left :: "'s \<Rightarrow> nat"
  assumes loop_step: "loop s = (if more s then do { (ret, s') \<leftarrow> body s;
      (case ret of Some r \<Rightarrow> Some (r, res s') | None \<Rightarrow> loop s') } else Some (fin, res s))"
    and body_invar: "invar s \<Longrightarrow> more s \<Longrightarrow> body s = Some (ret, s') \<Longrightarrow>
      invar s' \<and> (ret = None \<longrightarrow> left s' < left s)"
begin

lemma loop_invar: "invar s \<Longrightarrow> loop s = Some (r, z) \<Longrightarrow> \<exists>s'. invar s' \<and> z = res s'"
proof (induction "left s" arbitrary: s rule: less_induct)
  case less
  show ?case
  proof (cases "more s")
    case False
    with less.prems loop_step [of s] show ?thesis by auto
  next
    case True
    with less.prems(2) loop_step [of s] obtain ret s1 where b: "body s = Some (ret, s1)"
      "(case ret of Some r \<Rightarrow> Some (r, res s1) | None \<Rightarrow> loop s1) = Some (r, z)"
      by (auto simp: bind_eq_Some_conv)
    from body_invar [OF less.prems(1) True b(1)] b(2) less.hyps [of s1] show ?thesis
      by (cases ret) auto
  qed
qed

end

locale command_loop_total = command_loop +
  assumes body_total: "invar s \<Longrightarrow> more s \<Longrightarrow> body s \<noteq> None"
begin

lemma loop_returns: "invar s \<Longrightarrow> \<exists>r z. loop s = Some (r, z)"
proof (induction "left s" arbitrary: s rule: less_induct)
  case less
  show ?case
  proof (cases "more s")
    case False
    with loop_step [of s] show ?thesis by simp
  next
    case True
    with body_total [OF less.prems] obtain ret s1 where b: "body s = Some (ret, s1)" by force
    from body_invar [OF less.prems True b] b loop_step [of s] True less.hyps [of s1] show ?thesis
      by (cases ret) auto
  qed
qed

end

section \<open>Moving forward in the datagram\<close>

lemma advances_refl [simp]: "advances s s"
  by (simp add: advances_def)

lemma advances_trans: "advances a b \<Longrightarrow> advances b c \<Longrightarrow> advances a c"
  unfolding advances_def by (auto intro: order_trans)

lemma inStream_reads:
  assumes "inStreamLaw E"
  shows "advances s (snd (snd (fldInStreamReadUInt8 E s)))" "advances s (snd (snd (fldInStreamReadUInt16 E s)))"
    "advances s (snd (snd (nimbleSerializeServerInConnectRequest E s)))"
    "advances s (snd (snd (nimbleSerializeServerInJoinGameRequest E s)))"
    "advances s (snd (snd (snd (nbsStepsInSerializeHeader E s))))"
    "advances s (fst (snd (nbsStepsInSerializeSinglePredictedStep E s i st)))"
    "advances s (snd (snd (snd (nbsPendingStepsInSerializeHeader E s))))"
    "advances s (snd (snd (orderedDatagramInLogicReceive E l s)))"
    "advances s (snd (snd (blobStreamLogicOutReceive E l' s)))"
  using assms by (simp_all add: inStreamLaw_def)

lemma partyReadSteps_advances:
  assumes "inStreamLaw E"
  shows "advances s (snd (snd (snd (partyReadSteps E stepId n t p s))))"
proof (induction n arbitrary: stepId t p s)
  case (Suc n)
  let ?s1 = "fst (snd (nbsStepsInSerializeSinglePredictedStep E s stepId (pSteps p)))"
  have "advances s ?s1" by (rule inStream_reads(6) [OF assms])
  moreover have "snd (snd (nimbleServerParticipantDeserializeSingleStep E p stepId s)) = ?s1"
    by (simp add: nimbleServerParticipantDeserializeSingleStep_def split_beta Let_def)
  ultimately show ?case
    using Suc.IH by (auto simp: split_beta Let_def intro: advances_trans)
qed simp

lemma partyReadParticipants_advances:
  assumes "inStreamLaw E"
  shows "partyReadParticipants E n self ps s = Some (r, self', ps', s') \<Longrightarrow> advances s s'"
proof (induction n arbitrary: self ps s)
  case (Suc n)
  let ?s1 = "snd (snd (fldInStreamReadUInt8 E s))"
  let ?s2 = "snd (snd (snd (nbsStepsInSerializeHeader E ?s1)))"
  have s1: "advances s ?s1" and s2: "advances ?s1 ?s2" by (rule inStream_reads [OF assms])+
  have s3: "advances ?s2 (snd (snd (snd (partyReadSteps E st m t p ?s2))))" for st m t p
    by (rule partyReadSteps_advances [OF assms])
  from Suc.prems s1 advances_trans [OF s1 s2] advances_trans [OF advances_trans [OF s1 s2] s3] Suc.IH advances_trans
  show ?case by (auto simp: split_beta Let_def bind_eq_Some_conv split: if_splits) blast+
qed simp

lemma handleIncoming_advances:
  assumes law: "inStreamLaw E" and "nimbleServerHandleIncomingSteps E g s tc lps = Some (r, out, g', lps', s')"
  shows "advances s s'"
proof -
  let ?s1 = "snd (snd (snd (nbsPendingStepsInSerializeHeader E s)))"
  let ?s2 = "snd (snd (fldInStreamReadUInt8 E ?s1))"
  have 1: "advances s ?s1" "advances ?s1 ?s2" by (rule inStream_reads [OF law])+
  have 2: "advances s u" if "partyReadParticipants E n p ps ?s2 = Some (a, b, c, u)" for n p ps a b c u
    using advances_trans [OF advances_trans [OF 1]] partyReadParticipants_advances [OF law that] by blast
  from assms(2) 1(1) 2 show ?thesis
    by (auto simp: nimbleServerHandleIncomingSteps_def nimbleServerLocalPartyDeserializePredictedSteps_def split_beta Let_def
        bind_eq_Some_conv split: option.splits if_splits)
qed

lemma reqGameStep_advances:
  assumes law: "inStreamLaw E"
    and run: "nimbleServerReqGameStep E g tc lps stat s out = Some (r, g', tc', lps', stat', s', out')"
  shows "advances s s'"
proof -
  from run obtain a b g1 l st where
    "readIncomingStepsAndCreateAuthoritativeSteps E g s tc lps stat = Some (a, b, g1, l, st, s')"
    by (auto simp: nimbleServerReqGameStep_def bind_eq_Some_conv split: if_splits)
  then show ?thesis
    using handleIncoming_advances [OF law]
    by (auto simp: readIncomingStepsAndCreateAuthoritativeSteps_def split_beta Let_def bind_eq_Some_conv split: if_splits)
qed


section \<open>The handlers keep the server well formed\<close>

lemma sameIdentity_refl [simp]: "sameIdentity tc tc"
  by (simp add: sameIdentity_def)

lemma sameIdentity_trans: "sameIdentity a b \<Longrightarrow> sameIdentity b c \<Longrightarrow> sameIdentity a c"
  by (simp add: sameIdentity_def)

lemma streamOnly_identity: "streamOnly tc tc' \<Longrightarrow> sameIdentity tc tc'"
  by (auto simp: streamOnly_def sameIdentity_def)

lemma setConnection_fields [simp]:
  "length (transportConnections (setConnection self i tc)) = length (transportConnections self)"
  "localParties (setConnection self i tc) = localParties self" "game (setConnection self i tc) = game self"
  "i < length (transportConnections self) \<Longrightarrow> transportConnections (setConnection self i tc) ! i = tc"
  by (simp_all add: setConnection_def)

lemma serverWf_nth:
  "serverWf self \<Longrightarrow> i < 64 \<Longrightarrow> connectionWf (localParties self) (transportConnections self ! i)"
  using serverWf_len [of self] by (simp add: serverWf_def)

lemma serverWf_set:
  assumes wf: "serverWf self" and i: "i < 64" and same: "sameIdentity (transportConnections self ! i) tc"
  shows "serverWf (setConnection self i tc)"
  unfolding setConnection_def
  using serverWf_nth [OF wf i] same i serverWf_len [OF wf]
  by (intro serverWf_connection [OF wf]) (auto simp: sameIdentity_def connectionWf_def servesParty_def)

lemma serverWf_stat [simp]:
  "serverWf (self\<lparr>authoritativeStepsPerSecondStat := st\<rparr>) = serverWf self"
  "serverWf (self\<lparr>statsCounter := n\<rparr>) = serverWf self" "serverWf (self\<lparr>updateQuality := q\<rparr>) = serverWf self"
  by (simp_all add: serverWf_def)

lemma serverWf_order:
  "serverWf (self\<lparr>game := g, localParties := lps\<rparr>) = serverWf (self\<lparr>localParties := lps, game := g\<rparr>)"
  by (simp add: serverWf_def)

lemma reqConnect_wf:
  assumes laws: "feedLaws E" and wf: "serverWf self"
  shows "\<exists>r self' out' w'. nimbleServerReqConnect E self t s out w =
    Some (r, self', snd (snd (nimbleSerializeServerInConnectRequest E s)), out', w') \<and> serverWf self'"
proof -
  obtain e opts s1 where rd: "nimbleSerializeServerInConnectRequest E s = (e, opts, s1)"
    by (cases "nimbleSerializeServerInConnectRequest E s")
  have tab: "connectionTable self" using wf by (simp add: serverWf_def)
  show ?thesis
  proof (cases "e < 0 \<or> \<not> nimbleSerializeVersionIsEqual E (applicationVersion self) (crApplicationVersion opts)")
    case True
    from reqConnect_rejects [OF rd True] wf rd show ?thesis by simp
  next
    case False
    then have ok: "0 \<le> e" "nimbleSerializeVersionIsEqual E (applicationVersion self) (crApplicationVersion opts)" by auto
    from tab show ?thesis
    proof (cases rule: findExisting_cases [of _ t "crClientRequestId opts"])
      case (found i)
      from reqConnect_existing [OF rd ok found(1,2)] wf rd show ?thesis by simp
    next
      case none
      show ?thesis
      proof (cases "cbContents (freeTransportConnectionList self)")
        case Nil
        from reqConnect_full [OF rd ok none(1) tab Nil] wf rd show ?thesis by simp
      next
        case (Cons x xs)
        let ?tc = "openedConnection E self t (crClientRequestId opts) x w"
        have off: "clogMode E = ClogOff \<or> freeConnections self" using laws by (simp add: feedLaws_def)
        obtain fl r out' w' where run: "nimbleServerReqConnect E self t s out w = Some (r,
            self\<lparr>freeTransportConnectionList := fl, transportConnections := (transportConnections self)[unat x := ?tc]\<rparr>, s1, out', w')"
          and x: "unat x < length (transportConnections self)"
          and tab': "connectionTable (self\<lparr>freeTransportConnectionList := fl,
            transportConnections := (transportConnections self)[unat x := ?tc]\<rparr>)"
          using reqConnect_opens [OF rd ok none(1) tab Cons off] by blast
        have "connectionWf (localParties self) (transportConnections self ! unat x)" using wf x by (simp add: serverWf_def)
        moreover have "gsInvar (tcGameState ?tc)"
          using gameStateInit_invar [of E] laws by (simp add: openedConnection_fields feedLaws_def allocLaw_def)
        ultimately have "connectionWf (localParties self) ?tc"
          using x tab by (simp add: connectionWf_def servesParty_def openedConnection_fields connectionTable_def)
        then have "\<forall>c \<in> set ((transportConnections self)[unat x := ?tc]). connectionWf (localParties self) c"
          using wf set_update_subset_insert [of "transportConnections self" "unat x" ?tc] unfolding serverWf_def by auto
        with run tab' wf rd show ?thesis by (simp add: serverWf_def)
      qed
    qed
  qed
qed

lemma startDownload_total:
  assumes "serializeLaw E" "gsInvar (tcGameState tc)"
  shows "\<exists>tc' w'. startDownload E tc reqId w = Some (tc', w') \<and> sameIdentity tc tc'"
proof -
  obtain app w1 where app: "authoritativeStateSerializeFn E w = (app, w1)" by (cases "authoritativeStateSerializeFn E w")
  let ?gs = "tcGameState tc" and ?n = "ssGameStateOctetCount app"
  have len: "unat ?n \<le> length (ssGameState app)" using assms(1) app unfolding serializeLaw_def by (metis fst_conv)
  consider "gsOctetCount ?gs \<noteq> 0 \<and> ssStepId app \<le> gsStepId ?gs"
    | "gsOctetCount ?gs = 0 \<or> gsStepId ?gs < ssStepId app" "gsCapacity ?gs < ?n"
    | "gsOctetCount ?gs = 0 \<or> gsStepId ?gs < ssStepId app" "?n \<le> gsCapacity ?gs"
    by (meson linorder_not_le)
  then obtain r gs where "nimbleServerGameStateSet ?gs (ssStepId app) (ssGameState app) ?n = Some (r, gs)" "gsInvar gs"
    using gameStateSet_accepts [OF assms(2) _ _ len] gameStateSet_stale gameStateSet_too_big assms(2) by cases metis+
  with app show ?thesis
    by (simp add: startDownload_def transportConnectionSetGameStateTickId_def Let_def sameIdentity_def)
qed

lemma reqDownload_total:
  assumes "feedLaws E" "gsInvar (tcGameState tc)"
  shows "\<exists>r tc' w'. nimbleServerReqDownloadGameState E tc s send t w =
    Some (r, tc', snd (snd (fldInStreamReadUInt8 E s)), w') \<and> sameIdentity tc tc'"
proof -
  obtain e reqId s1 where rd: "fldInStreamReadUInt8 E s = (e, reqId, s1)" by (cases "fldInStreamReadUInt8 E s")
  have off: "clogMode E = ClogOff \<or> reqId \<noteq> 0" using assms(1) by (simp add: feedLaws_def)
  obtain tc1 w1 where st: "(if reqId = tcBlobStreamOutClientRequestId tc then Some (tc, w)
      else startDownload E tc reqId w) = Some (tc1, w1)" "sameIdentity tc tc1"
    using startDownload_total [of E tc reqId w] assms by (cases "reqId = tcBlobStreamOutClientRequestId tc") (auto simp: feedLaws_def)
  obtain r tc' w' where "nimbleServerReqDownloadGameState E tc s send t w = Some (r, tc', s1, w')" "streamOnly tc1 tc'"
    using reqDownload_returns [OF rd off st(1), of send t] by blast
  with rd sameIdentity_trans [OF st(2) streamOnly_identity] show ?thesis by simp
qed

lemma reqBlobStream_identity:
  assumes "inStreamLaw E" "nimbleServerReqBlobStream E tc s send t w = (r, tc', s', w')"
  shows "sameIdentity tc tc'" "advances s s'"
proof -
  obtain r0 l s1 where b: "blobStreamLogicOutReceive E (tcBlobStreamLogicOut tc) s = (r0, l, s1)"
    by (cases "blobStreamLogicOutReceive E (tcBlobStreamLogicOut tc) s")
  have 1: "streamOnly tc (tc\<lparr>tcBlobStreamLogicOut := l\<rparr>)" by (rule streamOnly_header)
  have 2: "streamOnly tc tc''" if "nimbleServerSendBlobStream E (tc\<lparr>tcBlobStreamLogicOut := l\<rparr>) send t w = (a, tc'', c)" for a tc'' c
    using streamOnly_trans [OF 1] sendBlobStream_streamOnly [OF that] by blast
  from assms(2) b 1 2 show "sameIdentity tc tc'"
    by (auto simp: nimbleServerReqBlobStream_def Let_def split: if_splits prod.splits intro: streamOnly_identity)
  have "s' = s1" using assms(2) b by (auto simp: nimbleServerReqBlobStream_def Let_def split: if_splits prod.splits)
  then show "advances s s'" using inStream_reads(9) [OF assms(1), of s "tcBlobStreamLogicOut tc"] b by simp
qed

text \<open>A join that returns keeps the server well formed, also when a party is taken up again.\<close>

lemma reqGameJoin_keeps:
  assumes wf: "serverWf self" and i: "i < length (transportConnections self)"
    and rd: "nimbleSerializeServerInJoinGameRequest E s = (e, jr, s1)"
    and one: "0 \<le> e \<longrightarrow> jrPlayerCount jr = 1 \<and> jrPlayers jr \<noteq> []"
    and run: "nimbleServerReqGameJoin E self i s out = Some (r, self', s', out')"
  shows "serverWf self' \<and> s' = s1"
proof (cases "0 \<le> e \<and> jrJoinGameType jr = NimbleSerializeJoinGameTypePartySecret \<and>
    firstFrom (partySearched self i) 0 (unat (partiesCount (localParties self))) = None")
  case False
  show ?thesis
  proof (cases "firstFrom (partySearched self i) 0 (unat (partiesCount (localParties self)))")
    case None
    with False one have "0 \<le> e \<longrightarrow> plainJoin jr"
      by (auto simp: plainJoin_def intro: NimbleSerializeJoinGameType.exhaust [of "jrJoinGameType jr"])
    from reqGameJoin_wf [OF wf i rd this, of out] run show ?thesis by auto
  next
    case (Some j)
    show ?thesis
    proof (cases "0 \<le> e")
      case True
      from reqGameJoin_served [OF wf i rd True Some, of out] run
        partyAssigned_wf [OF wf i searched_in_range(1) [OF wf Some]] show ?thesis by auto
    next
      case False
      with rd run wf show ?thesis by (auto simp: nimbleServerReqGameJoin_def)
    qed
  qed
next
  case True
  let ?lps = "localParties self" and ?j = "unat (jrPartyId jr)"
  have e: "0 \<le> e" and secret: "jrJoinGameType jr = NimbleSerializeJoinGameTypePartySecret"
    and none: "firstFrom (partySearched self i) 0 (unat (partiesCount ?lps)) = None" using True by auto
  have j: "?j < length (parties ?lps)" "participantReferenceCount (lpReferences (parties ?lps ! ?j)) = jrPlayerCount jr"
    using run rd e secret joinLocalParty_unknown [OF wf i none, of E "gameParticipants (game self)" jr]
    by (auto simp: nimbleServerReqGameJoin_def nimbleServerReadAndJoinParticipants_def bind_eq_Some_conv
        nimbleServerLocalPartiesFindParty_def readAt_def split: if_splits)
  from reqGameJoin_rejoins [OF wf i rd e secret refl none j] run show ?thesis by simp
qed

text \<open>A step request, seen from the server.\<close>

lemma feedGameStep_run:
  assumes laws: "feedLaws E" and wf: "serverWf self" and i: "i < 64"
  shows "\<exists>r g tc pl stat s' out'. nimbleServerReqGameStep E (game self) (transportConnections self ! i)
      (parties (localParties self)) st s out = Some (r, g, tc, pl, stat, s', out') \<and> advances s s' \<and>
    serverWf ((setConnection self i tc)\<lparr>game := g, localParties := (localParties self)\<lparr>parties := pl\<rparr>,
      authoritativeStepsPerSecondStat := stat\<rparr>)"
proof -
  let ?tc = "transportConnections self ! i" and ?lps = "localParties self"
  have l: "stepLaws E" "clogMode E = ClogOff \<or> noneLeaving (gameParticipants (game self))" "inStreamLaw E"
    using laws by (simp_all add: feedLaws_def)
  have serves: "servesParty ?lps ?tc" using serverWf_nth [OF wf i] by (simp add: connectionWf_def)
  obtain r g a b c pl stat s' out' where run: "nimbleServerReqGameStep E (game self) ?tc (parties ?lps) st s out =
      Some (r, g, ?tc\<lparr>tcStepsBehindStats := a, tcDebugCounter := b, tcNoRangesToSendCounter := c\<rparr>, pl, stat, s', out')"
    and ses: "sessionWf (?lps\<lparr>parties := pl\<rparr>) (gameParticipants g)"
    and links: "map lpTransportConnection pl = map lpTransportConnection (parties ?lps)"
    using reqGameStep_run [OF l(1) serverWf_session [OF wf] serves l(2), of st s out] by blast
  let ?tc' = "?tc\<lparr>tcStepsBehindStats := a, tcDebugCounter := b, tcNoRangesToSendCounter := c\<rparr>"
  have wf1: "serverWf (setConnection self i ?tc')" by (rule serverWf_set [OF wf i]) (simp add: sameIdentity_def)
  have len: "length pl = length (parties ?lps)" by (rule map_eq_imp_length_eq [OF links])
  have "lpTransportConnection (pl ! j) = lpTransportConnection (parties ?lps ! j)" if "j < length pl" for j
    using that links len by (metis nth_map)
  then have "serverWf ((setConnection self i ?tc')\<lparr>localParties := ?lps\<lparr>parties := pl\<rparr>, game := g\<rparr>)"
    using ses len serverWf_link [OF wf] by (intro serverWf_parties [OF wf1]) auto
  then have "serverWf ((setConnection self i ?tc')\<lparr>game := g, localParties := ?lps\<lparr>parties := pl\<rparr>,
      authoritativeStepsPerSecondStat := stat\<rparr>)"
    by (simp add: serverWf_order)
  with run reqGameStep_advances [OF l(3) run] show ?thesis by blast
qed

section \<open>One command\<close>

lemma feedSwitch_keeps:
  assumes laws: "feedLaws E" and one: "onePlayerJoins E" and wf: "serverWf self" and t: "unat t < 64"
    and run: "feedSwitch E send t ct cmd self s out w = Some (Some (r, self', s', out', w'))"
  shows "serverWf self' \<and> advances s s'"
proof -
  let ?tc = "transportConnections self ! unat t"
  have law: "inStreamLaw E" using laws by (simp add: feedLaws_def)
  have len: "unat t < length (transportConnections self)" using t serverWf_len [OF wf] by simp
  consider "cmd = cmdOctet E NimbleSerializeCmdConnectRequest"
    | "cmd \<noteq> cmdOctet E NimbleSerializeCmdConnectRequest" "cmd = cmdOctet E NimbleSerializeCmdGameStep"
    | "cmd \<notin> {cmdOctet E NimbleSerializeCmdConnectRequest, cmdOctet E NimbleSerializeCmdGameStep}"
        "cmd = cmdOctet E NimbleSerializeCmdJoinGameRequest"
    | "cmd \<notin> {cmdOctet E NimbleSerializeCmdConnectRequest, cmdOctet E NimbleSerializeCmdGameStep,
        cmdOctet E NimbleSerializeCmdJoinGameRequest}" "cmd = cmdOctet E NimbleSerializeCmdDownloadGameStateRequest"
    using run by (fastforce simp: feedSwitch_def split: if_splits)
  then show ?thesis
  proof cases
    case 1
    with run reqConnect_wf [OF laws wf, of t s out w] inStream_reads(3) [OF law, of s] show ?thesis
      by (auto simp: feedSwitch_def)
  next
    case 2
    with run feedGameStep_run [OF laws wf t, of "authoritativeStepsPerSecondStat self" s out] len show ?thesis
      by (auto simp: feedSwitch_def)
  next
    case 3
    obtain e jr s1 where rd: "nimbleSerializeServerInJoinGameRequest E s = (e, jr, s1)"
      by (cases "nimbleSerializeServerInJoinGameRequest E s")
    have one': "0 \<le> e \<longrightarrow> jrPlayerCount jr = 1 \<and> jrPlayers jr \<noteq> []" using one rd by (auto simp: onePlayerJoins_def)
    have "nimbleServerReqGameJoin E self (unat t) s out = Some (r, self', s', out')"
      using 3 run by (auto simp: feedSwitch_def bind_eq_Some_conv)
    from reqGameJoin_keeps [OF wf len rd one' this] inStream_reads(4) [OF law, of s] rd show ?thesis by simp
  next
    case 4
    have "gsInvar (tcGameState ?tc)" using serverWf_nth [OF wf t] by (simp add: connectionWf_def)
    with 4 run reqDownload_total [OF laws, of ?tc s send ct w] len inStream_reads(1) [OF law, of s]
      serverWf_set [OF wf t] show ?thesis
      by (auto simp: feedSwitch_def)
  qed
qed

lemma feedSwitch_total:
  assumes laws: "feedLaws E" and plain: "plainJoins E" and wf: "serverWf self" and t: "unat t < 64"
  shows "feedSwitch E send t ct cmd self s out w \<noteq> None"
proof -
  let ?tc = "transportConnections self ! unat t"
  have len: "unat t < length (transportConnections self)" using t serverWf_len [OF wf] by simp
  have gs: "gsInvar (tcGameState ?tc)" using serverWf_nth [OF wf t] by (simp add: connectionWf_def)
  obtain e jr s1 where rd: "nimbleSerializeServerInJoinGameRequest E s = (e, jr, s1)"
    by (cases "nimbleSerializeServerInJoinGameRequest E s")
  have plain': "0 \<le> e \<longrightarrow> plainJoin jr" using plain rd by (auto simp: plainJoins_def)
  obtain a b c d where 1: "nimbleServerReqConnect E self t s out w = Some (a, b, c, d)"
    using reqConnect_wf [OF laws wf, of t s out w] by blast
  obtain g h where 2: "nimbleServerReqGameStep E (game self) ?tc (parties (localParties self))
      (authoritativeStepsPerSecondStat self) s out = Some (g, h)"
    using feedGameStep_run [OF laws wf t, of "authoritativeStepsPerSecondStat self" s out] by blast
  obtain i j where 3: "nimbleServerReqGameJoin E self (unat t) s out = Some (i, j)"
    using reqGameJoin_wf [OF wf len rd plain', of out] by blast
  obtain k l where 4: "nimbleServerReqDownloadGameState E ?tc s send ct w = Some (k, l)"
    using reqDownload_total [OF laws gs, of s send ct w] by blast
  from len show ?thesis
    by (simp add: feedSwitch_def 1 2 3 4 split_beta)
qed

lemma feedReply_run:
  assumes wf: "serverWf self" and t: "unat t < 64"
  shows "\<exists>ret self' w'. feedReply E send t r self out w = Some (ret, self', w') \<and> serverWf self'"
proof -
  have len: "unat t < length (transportConnections self)" using t serverWf_len [OF wf] by simp
  have "serverWf (setConnection self (unat t) (transportConnectionCommitHeader E (transportConnections self ! unat t)))"
    by (rule serverWf_set [OF wf t streamOnly_identity]) (rule streamOnly_header)
  with wf len show ?thesis by (simp add: feedReply_def Let_def)
qed

lemma feedBlobStream_run:
  assumes law: "inStreamLaw E" and wf: "serverWf self" and t: "unat t < 64"
  shows "\<exists>ret self' s' w'. feedBlobStream E send t ct self s w = Some (ret, self', s', w') \<and> serverWf self' \<and> advances s s'"
proof -
  let ?tc = "transportConnections self ! unat t"
  have len: "unat t < length (transportConnections self)" using t serverWf_len [OF wf] by simp
  obtain r tc' s' w' where b: "nimbleServerReqBlobStream E ?tc s send ct w = (r, tc', s', w')"
    by (cases "nimbleServerReqBlobStream E ?tc s send ct w")
  from reqBlobStream_identity [OF law b] b len serverWf_set [OF wf t] show ?thesis by (simp add: feedBlobStream_def)
qed

lemma feedHeader_run:
  assumes wf: "serverWf self" and t: "unat t < 64"
    and h: "transportConnectionWriteHeader E (transportConnections self ! unat t) out ct = (e, tc, out')"
  shows "serverWf (setConnection self (unat t) tc)"
  using streamOnly_header(1) [of "transportConnections self ! unat t" E out ct] h
  by (intro serverWf_set [OF wf t streamOnly_identity]) simp

lemma feedCommand_keeps:
  assumes laws: "feedLaws E" and one: "onePlayerJoins E" and wf: "serverWf self" and t: "unat t < 64"
    and run: "feedCommand E send t ct cmd self s w = Some (ret, self', s', w')"
  shows "serverWf self' \<and> advances s s'"
proof (cases "cmd = cmdOctet E NimbleSerializeCmdClientOutBlobStream")
  case True
  with run feedBlobStream_run [OF _ wf t, of E send ct s w] laws show ?thesis
    by (auto simp: feedCommand_def feedLaws_def)
next
  case False
  let ?out = "(fldOutStreamInit E (DATAGRAM_TRANSPORT_MAX_SIZE E - 32))\<lparr>outWriteDebugInfo := False\<rparr>"
  have len: "unat t < length (transportConnections self)" using t serverWf_len [OF wf] by simp
  obtain e tc out where h: "transportConnectionWriteHeader E (transportConnections self ! unat t) ?out ct = (e, tc, out)"
    by (cases "transportConnectionWriteHeader E (transportConnections self ! unat t) ?out ct")
  let ?S = "setConnection self (unat t) tc"
  have wf1: "serverWf ?S" by (rule feedHeader_run [OF wf t h])
  show ?thesis
  proof (cases "e < 0")
    case True
    with run False len h wf1 show ?thesis by (simp add: feedCommand_def)
  next
    case e: False
    with run False len h obtain handled where hd: "feedSwitch E send t ct cmd ?S s out w = Some handled"
      "(case handled of None \<Rightarrow> Some (Some 0, ?S, s, w)
         | Some (result, self2, s2, out2, w2) \<Rightarrow> do {
             (ret, self3, w3) \<leftarrow> feedReply E send t result self2 out2 w2; Some (ret, self3, s2, w3) }) = Some (ret, self', s', w')"
      by (auto simp: feedCommand_def Let_def bind_eq_Some_conv)
    show ?thesis
    proof (cases handled)
      case None
      with hd(2) wf1 show ?thesis by simp
    next
      case (Some a)
      obtain r self2 s2 out2 w2 where a: "a = (r, self2, s2, out2, w2)" by (cases a)
      from feedSwitch_keeps [OF laws one wf1 t] hd(1) Some a have k: "serverWf self2" "advances s s2" by blast+
      with hd(2) Some a feedReply_run [OF k(1) t, of E send r out2 w2] show ?thesis by auto
    qed
  qed
qed

lemma feedCommand_total:
  assumes laws: "feedLaws E" and plain: "plainJoins E" and one: "onePlayerJoins E" and wf: "serverWf self" and t: "unat t < 64"
  shows "feedCommand E send t ct cmd self s w \<noteq> None"
proof (cases "cmd = cmdOctet E NimbleSerializeCmdClientOutBlobStream")
  case True
  with feedBlobStream_run [OF _ wf t, of E send ct s w] laws show ?thesis
    by (auto simp: feedCommand_def feedLaws_def)
next
  case False
  let ?out = "(fldOutStreamInit E (DATAGRAM_TRANSPORT_MAX_SIZE E - 32))\<lparr>outWriteDebugInfo := False\<rparr>"
  have len: "unat t < length (transportConnections self)" using t serverWf_len [OF wf] by simp
  obtain e tc out where h: "transportConnectionWriteHeader E (transportConnections self ! unat t) ?out ct = (e, tc, out)"
    by (cases "transportConnectionWriteHeader E (transportConnections self ! unat t) ?out ct")
  let ?S = "setConnection self (unat t) tc"
  have wf1: "serverWf ?S" by (rule feedHeader_run [OF wf t h])
  obtain handled where hd: "feedSwitch E send t ct cmd ?S s out w = Some handled"
    using feedSwitch_total [OF laws plain wf1 t, of send ct cmd s out w] by blast
  have reply: "feedReply E send t r self2 out2 w2 \<noteq> None" if "handled = Some (r, self2, s2, out2, w2)" for r self2 s2 out2 w2
  proof -
    have "serverWf self2" using feedSwitch_keeps [OF laws one wf1 t] hd that by blast
    from feedReply_run [OF this t] show ?thesis by fastforce
  qed
  show ?thesis
  proof (cases handled)
    case None
    with False len h hd show ?thesis by (simp add: feedCommand_def Let_def)
  next
    case (Some a)
    obtain r self2 s2 out2 w2 where a: "a = (r, self2, s2, out2, w2)" by (cases a)
    with reply Some obtain b where "feedReply E send t r self2 out2 w2 = Some b" by blast
    with False len h hd Some a show ?thesis by (cases b) (simp add: feedCommand_def Let_def)
  qed
qed

section \<open>All commands of a datagram\<close>

lemma plainJoins_one: "plainJoins E \<Longrightarrow> onePlayerJoins E"
  by (auto simp: plainJoins_def onePlayerJoins_def plainJoin_def)

lemma feedRun_step:
  "feedRun E send t ct z = (if feedMore z then do { (ret, z') \<leftarrow> feedBody E send t ct z;
     (case ret of Some r \<Rightarrow> Some (r, feedOut z') | None \<Rightarrow> feedRun E send t ct z') } else Some (0, feedOut z))"
proof (cases z)
  case (fields self s w)
  obtain e cmd s1 where rd: "fldInStreamReadUInt8 E s = (e, cmd, s1)" by (cases "fldInStreamReadUInt8 E s")
  show ?thesis
    unfolding fields feedRun.simps feedMore.simps feedBody.simps feedLoop.simps [of E send t ct self s w] rd
    by (cases "feedCommand E send t ct cmd self s1 w") (auto split: option.splits)
qed

lemma octet_next: "p < n \<Longrightarrow> unat (p + 1) = unat p + 1" for p n :: size_t
  using unat_add_no_wrap [of p 1] unsigned_less [of n, where 'a = nat] by (simp add: word_less_nat_alt)

lemma octet_taken: "p < n \<Longrightarrow> p + 1 \<le> q \<Longrightarrow> q \<le> n \<Longrightarrow> unat (n - q) < unat (n - p)" for p q n :: size_t
  using octet_next [of p n] by (simp add: unat_sub word_le_nat_alt word_less_nat_alt)

lemma feedBody_ready:
  assumes ready: "feedReady E t z" and more: "feedMore z" and run: "feedBody E send t ct z = Some (ret, z')"
  shows "feedReady E t z' \<and> (ret = None \<longrightarrow> octetsLeft z' < octetsLeft z)"
proof -
  obtain self s w self' s' w' where z: "z = (self, s, w)" "z' = (self', s', w')" by (cases z; cases z')
  obtain e cmd s1 where rd: "fldInStreamReadUInt8 E s = (e, cmd, s1)" by (cases "fldInStreamReadUInt8 E s")
  have laws: "feedLaws E" "onePlayerJoins E" "serverWf self" "unat t < 64" and pos: "inPos s < inSize s"
    using ready more z by auto
  then have s1: "inPos s1 = inPos s + 1" "inSize s1 = inSize s" "inPos s1 \<le> inSize s"
    using rd unfolding feedLaws_def inStreamLaw_def advances_def by (metis less_imp_le snd_conv)+
  have "feedCommand E send t ct cmd self s1 w = Some (ret, self', s', w')" using run z rd by simp
  from feedCommand_keeps [OF laws this] s1 have "serverWf self'" "inSize s' = inSize s" "inPos s + 1 \<le> inPos s'" "inPos s' \<le> inSize s"
    by (simp_all add: advances_def)
  with laws octet_taken [OF pos this(3,4)] z show ?thesis by simp
qed

interpretation feed: command_loop feedMore "feedBody E send t ct" feedOut 0 "feedRun E send t ct" "feedReady E t" octetsLeft
  for E :: "'x Env" and send t ct
  by unfold_locales (rule feedRun_step, rule feedBody_ready)

interpretation feedPlain: command_loop_total feedMore "feedBody E send t ct" feedOut 0 "feedRun E send t ct"
    "feedReadyPlain E t" octetsLeft
  for E :: "'x Env" and send t ct
proof unfold_locales
  fix z :: "'x feedState"
  show "feedRun E send t ct z = (if feedMore z then do { (ret, z') \<leftarrow> feedBody E send t ct z;
      (case ret of Some r \<Rightarrow> Some (r, feedOut z') | None \<Rightarrow> feedRun E send t ct z') } else Some (0, feedOut z))"
    by (rule feedRun_step)
  show "feedReadyPlain E t z' \<and> (ret = None \<longrightarrow> octetsLeft z' < octetsLeft z)"
    if "feedReadyPlain E t z" "feedMore z" "feedBody E send t ct z = Some (ret, z')" for ret z'
    using that feedBody_ready [of E t z send ct ret z'] by (simp add: feedReadyPlain_def)
  show "feedBody E send t ct z \<noteq> None" if "feedReadyPlain E t z" "feedMore z"
    using that feedCommand_total [of E] by (cases z) (auto simp: feedReadyPlain_def split_beta)
qed

lemma feedConnection_wf:
  assumes laws: "feedLaws E" and wf: "serverWf self" and t: "unat t < 64"
  shows "serverWf (setConnection self (unat t) (feedConnection E self t (transportConnections self ! unat t)))"
proof -
  let ?tc = "feedConnection E self t (transportConnections self ! unat t)"
  have "connectionWf (localParties self) ?tc"
    using serverWf_nth [OF wf t] t laws gameStateInit_invar [of E]
    by (simp add: feedConnection_def connectionWf_def servesParty_def transportConnectionInit_def feedLaws_def allocLaw_def
        NIMBLE_NIMBLE_SERVER_MAX_TRANSPORT_CONNECTIONS_def)
  moreover have "tcTransportConnectionId ?tc = tcTransportConnectionId (transportConnections self ! unat t)"
    by (simp add: feedConnection_def transportConnectionInit_def)
  ultimately show ?thesis using t serverWf_len [OF wf] unfolding setConnection_def by (intro serverWf_connection [OF wf]) simp_all
qed

lemma setConnection_twice [simp]: "setConnection (setConnection self i a) i b = setConnection self i b"
  by (simp add: setConnection_def)

text \<open>The start of \<open>nimbleServerFeed\<close>: the datagram is refused, or the loop starts at its first command.\<close>

lemma feed_start:
  fixes E :: "'x Env" and self :: "'x NimbleServer" and t :: u8 and octs :: octets
  assumes wf: "serverWf self" and t: "unat t < 64"
    and rc: "orderedDatagramInLogicReceive E (tcOrderedDatagramInLogic (feedConnection E self t (transportConnections self ! unat t)))
      ((fldInStreamInit E octs)\<lparr>inReadDebugInfo := True\<rparr>) = (e, l, s1)"
    and rd: "fldInStreamReadUInt16 E s1 = (e', ct, s2)"
  defines "tc \<equiv> feedConnection E self t (transportConnections self ! unat t)"
  shows "nimbleServerFeed E self t octs send w =
    (if tcTransportIndex tc \<noteq> t then Some (NimbleServerErrSerialize, setConnection self (unat t) tc, w)
     else if e < 0 then Some (NimbleServerErrSerialize, setConnection self (unat t) (tc\<lparr>tcOrderedDatagramInLogic := l\<rparr>), w)
     else feedLoop E send t ct (setConnection self (unat t) (tc\<lparr>tcOrderedDatagramInLogic := l\<rparr>)) s2 w)"
  using t rc rd serverWf_len [OF wf]
  by (simp add: nimbleServerFeed_def tc_def NIMBLE_NIMBLE_SERVER_MAX_TRANSPORT_CONNECTIONS_def Let_def)

lemma feed_reads:
  assumes law: "inStreamLaw E"
    and rc: "orderedDatagramInLogicReceive E l0 ((fldInStreamInit E octs)\<lparr>inReadDebugInfo := True\<rparr>) = (e, l, s1)"
    and rd: "fldInStreamReadUInt16 E s1 = (e', ct, s2)"
  shows "inPos s2 \<le> inSize s2"
proof -
  have 0: "inPos (fldInStreamInit E octs) \<le> inSize (fldInStreamInit E octs)" using law by (simp add: inStreamLaw_def)
  have 1: "advances ((fldInStreamInit E octs)\<lparr>inReadDebugInfo := True\<rparr>) s1" using inStream_reads(8) [OF law] rc by (metis snd_conv)
  have 2: "advances s1 s2" using inStream_reads(2) [OF law] rd by (metis snd_conv)
  show ?thesis using advances_trans [OF 1 2] 0 by (simp add: advances_def)
qed

lemma feed_cases:
  assumes laws: "feedLaws E" and wf: "serverWf self"
  obtains (refused) S r where "nimbleServerFeed E self t octs send w = Some (r, S, w)" "serverWf S"
    | (handled) S ct s where "nimbleServerFeed E self t octs send w = feedLoop E send t ct S s w" "serverWf S"
        "inPos s \<le> inSize s" "unat t < 64"
proof (cases "unat t < 64")
  case False
  with wf show ?thesis
    by (intro refused) (auto simp: nimbleServerFeed_def NIMBLE_NIMBLE_SERVER_MAX_TRANSPORT_CONNECTIONS_def)
next
  case True
  let ?tc = "feedConnection E self t (transportConnections self ! unat t)"
  obtain e l s1 where rc: "orderedDatagramInLogicReceive E (tcOrderedDatagramInLogic ?tc)
      ((fldInStreamInit E octs)\<lparr>inReadDebugInfo := True\<rparr>) = (e, l, s1)" by (metis prod.exhaust)
  obtain e' ct s2 where rd: "fldInStreamReadUInt16 E s1 = (e', ct, s2)" by (metis prod.exhaust)
  let ?S = "setConnection self (unat t) (?tc\<lparr>tcOrderedDatagramInLogic := l\<rparr>)"
  have wf1: "serverWf (setConnection self (unat t) ?tc)" by (rule feedConnection_wf [OF laws wf True])
  then have wf2: "serverWf ?S"
    using serverWf_set [OF wf1 True, of "?tc\<lparr>tcOrderedDatagramInLogic := l\<rparr>"] True serverWf_len [OF wf]
    by (simp add: sameIdentity_def)
  have pos: "inPos s2 \<le> inSize s2" using feed_reads [OF _ rc rd] laws by (simp add: feedLaws_def)
  note start = feed_start [OF wf True rc rd, of send w]
  show ?thesis
  proof (cases "tcTransportIndex ?tc \<noteq> t \<or> e < 0")
    case True
    with start wf1 wf2 show ?thesis by (cases "tcTransportIndex ?tc = t") (auto intro: refused)
  next
    case False
    with start wf2 pos True show ?thesis by (intro handled) auto
  qed
qed

text \<open>A datagram that is handled leaves the server well formed, and every datagram is handled if the joins are plain.\<close>

lemma feed_keeps:
  assumes laws: "feedLaws E" and one: "onePlayerJoins E" and wf: "serverWf self"
    and run: "nimbleServerFeed E self t octs send w = Some (r, self', w')"
  shows "serverWf self'"
  using laws wf
proof (cases rule: feed_cases [of E self t octs send w])
  case (refused S r')
  with run show ?thesis by simp
next
  case (handled S ct s)
  then have "feedReady E t (S, s, w)" using laws one by simp
  from feed.loop_invar [OF this, of send ct r "(self', w')"] handled(1) run show ?thesis by fastforce
qed

lemma feed_total:
  assumes laws: "feedLaws E" and plain: "plainJoins E" and wf: "serverWf self"
  shows "\<exists>r self' w'. nimbleServerFeed E self t octs send w = Some (r, self', w') \<and> serverWf self'"
  using laws wf
proof (cases rule: feed_cases [of E self t octs send w])
  case (refused S r)
  then show ?thesis by blast
next
  case (handled S ct s)
  then have "feedReadyPlain E t (S, s, w)" using laws plain plainJoins_one by (auto simp: feedReadyPlain_def)
  from feedPlain.loop_returns [OF this, of send ct] handled(1)
  obtain r self' w' where "nimbleServerFeed E self t octs send w = Some (r, self', w')" by auto
  with feed_keeps [OF laws plainJoins_one [OF plain] wf this] show ?thesis by blast
qed

text \<open>A command that fails ends the datagram, and nothing is sent for it.\<close>

lemma feedLoop_fails:
  assumes wf: "serverWf self" and t: "unat t < 64" and more: "inPos s \<noteq> inSize s"
    and rd: "fldInStreamReadUInt8 E s = (e, cmd, s1)" "cmd \<noteq> cmdOctet E NimbleSerializeCmdClientOutBlobStream"
    and h: "transportConnectionWriteHeader E (transportConnections self ! unat t)
      ((fldOutStreamInit E (DATAGRAM_TRANSPORT_MAX_SIZE E - 32))\<lparr>outWriteDebugInfo := False\<rparr>) ct = (e', tc, out)"
    and fails: "0 \<le> e' \<Longrightarrow> feedSwitch E send t ct cmd (setConnection self (unat t) tc) s1 out w = Some (Some (r, self', s', out', w'))"
      "r < 0"
  shows "feedLoop E send t ct self s w =
    (if e' < 0 then Some (e', setConnection self (unat t) tc, w) else Some (r, self', w'))"
proof -
  have "unat t < length (transportConnections self)" using t serverWf_len [OF wf] by simp
  with assms(3-8) show ?thesis
    by (subst feedLoop.simps) (simp add: feedCommand_def feedReply_def Let_def)
qed

section \<open>The concrete environment\<close>

lemma demoRead8_advances:
  "advances s (snd (snd (demoRead8 s)))" "inPos s < inSize s \<Longrightarrow> inPos (snd (snd (demoRead8 s))) = inPos s + 1"
  using octet_next [of "inPos s" "inSize s"]
  by (auto simp: demoRead8_def advances_def word_le_nat_alt word_less_nat_alt)

lemma demo_inStreamLaw: "inStreamLaw (demoEnv c)"
proof -
  have two: "advances s (snd (snd (demoRead8 (snd (snd (demoRead8 s))))))" for s
    by (rule advances_trans) (rule demoRead8_advances)+
  have three: "advances s (snd (snd (demoRead8 (snd (snd (demoRead8 (snd (snd (demoRead8 s)))))))))" for s
    by (rule advances_trans) (rule demoRead8_advances two)+
  show ?thesis
    unfolding inStreamLaw_def demoEnv_def
    by (simp add: demoRead8_advances two three demoInInit_def demoRead16_def demoInConnect_def demoInJoin_def
        demoStepsHeader_def demoSingleStep_def demoPendingHeader_def demoInReceive_def Let_def split_beta)
qed

lemma demo_feedLaws: "feedLaws (demoEnv ClogOff)"
  by (simp add: feedLaws_def demo_stepLaws demo_inStreamLaw) (simp add: serializeLaw_def allocLaw_def demoEnv_def)

lemma plainEnv_laws: "feedLaws plainEnv" "plainJoins plainEnv"
proof -
  let ?E = "(demoEnv ClogOff)\<lparr>nimbleSerializeServerInJoinGameRequest := demoPlainJoin\<rparr>"
  have "stepLaws ?E" using demo_stepLaws [of ClogOff]
    by (simp add: stepLaws_def composeLaws_def stepReadLaw_def convertLaw_def stepWriteLaw_def stepDiscardLaw_def pendingRangesLaw_def)
  moreover have "inStreamLaw ?E" using demo_inStreamLaw [of ClogOff]
    by (simp add: inStreamLaw_def demoPlainJoin_def demoRead8_advances Let_def split_beta)
  moreover have "serializeLaw ?E" "allocLaw ?E" "clogMode ?E = ClogOff"
    using demo_feedLaws by (simp_all add: feedLaws_def serializeLaw_def allocLaw_def)
  ultimately show "feedLaws plainEnv" by (simp add: feedLaws_def plainEnv_def)
  show "plainJoins plainEnv"
    by (auto simp: plainJoins_def plainEnv_def demoPlainJoin_def plainJoin_def Let_def split: prod.splits)
qed

text \<open>A concrete server whose parties are all in use.\<close>

lemma crowdedServer:
  "\<exists>(lps :: demo NimbleServerLocalParties) ps. serverWf (demoServer lps ps) \<and>
     usedParties lps = {0..<length (parties lps)} \<and> length (parties lps) = 2 \<and>
     (\<forall>m \<in> usedParties lps. lpTransportConnection (parties lps ! m) \<noteq> Some 3)"
proof -
  obtain ps :: "demo NimbleServerParticipants" where ps: "participantsWf ps" "usedIds ps = {}" "participantCapacity ps = 4"
    using demoRoster by blast
  note b = blankParties_wf [OF ps(1,2)]
  have least: "(LEAST j. j \<notin> usedParties blankParties) = 0" by (simp add: b(2) Least_equality)
  obtain k lps1 ps1 where c: "sessionWf lps1 ps1" "length (parties lps1) = 2" "usedIds ps1 = {k}" "k < length (participants ps)"
    "\<exists>q. participants ps1 = (participants ps)[k := q]" "lpTransportConnection (parties lps1 ! 0) = Some 7" "usedParties lps1 = {0}"
    using localPartiesCreate_room [OF b(1), of "demoEnv ClogFatal" "Some 7" 2 "[]" 9] b(2,3) ps(2,3) least by auto
  have cap: "unat (participantCapacity ps1) = 4"
    using c(1,5) ps(1,3) by (auto simp: sessionWf_def participantsWf_def participantsShape_def)
  have least1: "(LEAST j. j \<notin> usedParties lps1) = 1" unfolding c(7) by (rule Least_equality) auto
  have free1: "usedParties lps1 \<noteq> {0..<length (parties lps1)}" by (simp add: c(2,7) set_eq_iff) force
  obtain lps2 ps2 where d: "sessionWf lps2 ps2" "length (parties lps2) = 2" "usedParties lps2 = {1, 0}"
    "\<forall>j. j \<noteq> 1 \<longrightarrow> parties lps2 ! j = parties lps1 ! j" "lpTransportConnection (parties lps2 ! 1) = Some 8"
    using localPartiesCreate_room [OF c(1) free1, of "demoEnv ClogFatal" "Some 8" 2 "[]" 9, unfolded least1] c(2,3,6,7) cap
    by auto
  have d0: "lpTransportConnection (parties lps2 ! 0) = Some 7" using d(4) c(6) by simp
  have "p \<in> {parties lps2 ! 0, parties lps2 ! 1}" if "p \<in> set (parties lps2)" for p
    using that d(2) by (auto simp: in_set_conv_nth less_2_cases_iff)
  then have "\<forall>p \<in> set (parties lps2). \<forall>t. lpTransportConnection p = Some t \<longrightarrow> t < 64" using d0 d(5) by fastforce
  then have "serverWf (demoServer lps2 ps2)" using d(1) by (intro demoServer_wf)
  moreover have "usedParties lps2 = {0..<length (parties lps2)}"
    unfolding d(2,3) by (simp add: atLeast0LessThan lessThan_Suc numeral_2_eq_2)
  moreover have "\<forall>m \<in> usedParties lps2. lpTransportConnection (parties lps2 ! m) \<noteq> Some 3" using d(3,5) d0 by simp
  ultimately show ?thesis using d(2) by blast
qed

section \<open>Properties\<close>



text \<open>
  C25. Which datagrams are refused. One from an index that is no connection, or for a connection in use
  by another transport, changes nothing. One that is out of order changes only the order bookkeeping of
  its connection. An empty one is accepted with the same effect. A connection that is not in use is
  first opened for the index it comes from. In all these cases nothing is sent.
\<close>

theorem feed_refusals:
  assumes "serverWf self" "i = unat t" "tc = transportConnections self ! i"
  shows "(64 \<le> i \<or> tcIsUsed tc \<and> tcTransportIndex tc \<noteq> t \<longrightarrow>
      nimbleServerFeed E self t octs send w = Some (NimbleServerErrSerialize, self, w)) \<and>
    (i < 64 \<and> tcTransportIndex (feedConnection E self t tc) = t \<and>
      orderedDatagramInLogicReceive E (tcOrderedDatagramInLogic (feedConnection E self t tc))
        ((fldInStreamInit E octs)\<lparr>inReadDebugInfo := True\<rparr>) = (e, l, s1) \<and>
      fldInStreamReadUInt16 E s1 = (e', ct, s2) \<and> (e < 0 \<or> inPos s2 = inSize s2) \<longrightarrow>
      nimbleServerFeed E self t octs send w = Some (if e < 0 then NimbleServerErrSerialize else 0,
        setConnection self i ((feedConnection E self t tc)\<lparr>tcOrderedDatagramInLogic := l\<rparr>), w)) \<and>
    (if tcIsUsed tc then feedConnection E self t tc = tc
     else tcTransportIndex (feedConnection E self t tc) = t \<and> tcIsUsed (feedConnection E self t tc))"
    (is "(_ \<longrightarrow> ?A) \<and> (?B \<longrightarrow> ?C) \<and> ?D")
proof (intro conjI impI)
  assume "64 \<le> i \<or> tcIsUsed tc \<and> tcTransportIndex tc \<noteq> t"
  then show ?A
    using assms serverWf_len [OF assms(1)]
    by (auto simp: nimbleServerFeed_def feedConnection_def setConnection_def NIMBLE_NIMBLE_SERVER_MAX_TRANSPORT_CONNECTIONS_def)
next
  assume ?B
  then show ?C
    using assms feed_start [OF assms(1), of t E octs e l s1 e' ct s2 send w] feedLoop.simps [of E send t ct _ s2 w] by auto
next
  show ?D by (simp add: feedConnection_def transportConnectionInit_def)
qed

theorem feed_refusals_witness:
  "\<exists>ps self'. nimbleServerFeed (demoEnv ClogOff) (demoServer blankParties ps) 70 [0, 0, 0, 0] (\<lambda>os w. demoSend w 3 os)
      (DWorld 0 [] []) = Some (NimbleServerErrSerialize, demoServer blankParties ps, DWorld 0 [] []) \<and>
    nimbleServerFeed (demoEnv ClogOff) (demoServer blankParties ps) 3 [0, 0, 0, 0] (\<lambda>os w. demoSend w 3 os)
      (DWorld 0 [] []) = Some (0, self', DWorld 0 [] [])"
proof -
  obtain ps where wf: "serverWf (demoServer blankParties ps)" using blankServer by blast
  let ?tc = "feedConnection (demoEnv ClogOff) (demoServer blankParties ps) 3 (transportConnections (demoServer blankParties ps) ! 3)"
  have "\<not> tcIsUsed (transportConnections (demoServer blankParties ps) ! 3)" by (simp add: demoServer_def demoConnection_def)
  moreover have "\<exists>l s1 s2 ct. orderedDatagramInLogicReceive (demoEnv ClogOff) (tcOrderedDatagramInLogic ?tc)
      ((fldInStreamInit (demoEnv ClogOff) [0, 0, 0, 0])\<lparr>inReadDebugInfo := True\<rparr>) = (0, l, s1) \<and>
    fldInStreamReadUInt16 (demoEnv ClogOff) s1 = (0, ct, s2) \<and> inPos s2 = inSize s2"
    by (simp add: demoEnv_def demoInReceive_def demoRead16_def demoRead8_def demoInInit_def)
  ultimately show ?thesis
    using feed_refusals [OF wf refl refl, where t = 3] feed_refusals [OF wf refl refl, where t = 70 and E = "demoEnv ClogOff"]
    by (intro exI [of _ ps]) fastforce
qed

text \<open>
  C37. A join request that is refused because every party is in use is never answered. The handler writes
  the response that says so, but the datagram is dropped with the error: nothing is sent, whatever the
  transport, and the commands that follow in the datagram are not looked at.
\<close>

theorem refused_join_is_not_answered:
  assumes "serverWf self" "unat t < 64" "inPos s \<noteq> inSize s" "inj (cmdOctet E)"
    and "fldInStreamReadUInt8 E s = (e, cmdOctet E NimbleSerializeCmdJoinGameRequest, s1)"
    and "nimbleSerializeServerInJoinGameRequest E s1 = (e', jr, s2)" "0 \<le> e'" "plainJoin jr"
    and "usedParties (localParties self) = {0..<length (parties (localParties self))}"
    and "\<forall>m \<in> usedParties (localParties self). lpTransportConnection (parties (localParties self) ! m) \<noteq> Some (unat t)"
  shows "\<exists>r tc. r < 0 \<and> (\<forall>send. feedLoop E send t ct self s w = Some (r, setConnection self (unat t) tc, w))"
proof -
  obtain e0 tc out where h: "transportConnectionWriteHeader E (transportConnections self ! unat t)
      ((fldOutStreamInit E (DATAGRAM_TRANSPORT_MAX_SIZE E - 32))\<lparr>outWriteDebugInfo := False\<rparr>) ct = (e0, tc, out)"
    by (metis prod.exhaust)
  let ?S = "setConnection self (unat t) tc"
  have wf: "serverWf ?S" by (rule feedHeader_run [OF assms(1,2) h])
  have t: "unat t < length (transportConnections ?S)" using assms(2) serverWf_len [OF wf] by simp
  have none: "firstFrom (partySearched ?S (unat t)) 0 (unat (partiesCount (localParties ?S))) = None"
    using assms(10) by (intro unserved) simp
  have jr: "jrJoinGameType jr = NimbleSerializeJoinGameTypeNoSecret" "jrPlayerCount jr = 1"
    using assms(8) by (simp_all add: plainJoin_def)
  obtain out' where join: "nimbleServerReqGameJoin E ?S (unat t) s1 out = Some (NimbleServerErrOutOfParticipantMemory, ?S, s2, out')"
    using reqGameJoin_full(1) [OF wf t assms(6,7) jr none, of out] assms(9) by auto
  have cmd: "cmdOctet E NimbleSerializeCmdJoinGameRequest \<noteq> cmdOctet E c" if "c \<noteq> NimbleSerializeCmdJoinGameRequest" for c
    using assms(4) that by (simp add: inj_eq)
  have neg: "NimbleServerErrOutOfParticipantMemory < 0" by (simp add: NimbleServerErrOutOfParticipantMemory_def)
  have switch: "feedSwitch E send t ct (cmdOctet E NimbleSerializeCmdJoinGameRequest) ?S s1 out w =
      Some (Some (NimbleServerErrOutOfParticipantMemory, ?S, s2, out', w))" for send
    using cmd join by (simp add: feedSwitch_def)
  have "feedLoop E send t ct self s w = Some (if e0 < 0 then e0 else NimbleServerErrOutOfParticipantMemory, ?S, w)" for send
    using feedLoop_fails [OF assms(1-3,5) _ h switch neg] cmd by auto
  with neg show ?thesis by (intro exI [of _ "if e0 < 0 then e0 else NimbleServerErrOutOfParticipantMemory"] exI [of _ tc]) simp
qed

theorem refused_join_is_not_answered_witness:
  "\<exists>(lps :: demo NimbleServerLocalParties) ps r self'. r < 0 \<and>
    feedLoop (demoEnv ClogOff) (\<lambda>os w. demoSend w 3 os) 3 0 (demoServer lps ps) (demoInInit [3, 0, 0, 1]) (DWorld 0 [] []) =
      Some (r, self', DWorld 0 [] [])"
proof -
  obtain lps :: "demo NimbleServerLocalParties" and ps where s: "serverWf (demoServer lps ps)"
      "usedParties lps = {0..<length (parties lps)}" "\<forall>m \<in> usedParties lps. lpTransportConnection (parties lps ! m) \<noteq> Some 3"
    using crowdedServer by blast
  have l: "localParties (demoServer lps ps) = lps" by (simp add: demoServer_def)
  have i: "inj (cmdOctet (demoEnv ClogOff))"
  proof (rule injI)
    show "x = y" if "cmdOctet (demoEnv ClogOff) x = cmdOctet (demoEnv ClogOff) y" for x y
      using that by (cases x; cases y) (simp_all add: demoEnv_def)
  qed
  have r: "fldInStreamReadUInt8 (demoEnv ClogOff) (demoInInit [3, 0, 0, 1]) =
      (0, cmdOctet (demoEnv ClogOff) NimbleSerializeCmdJoinGameRequest, (demoInInit [3, 0, 0, 1])\<lparr>inPos := 1\<rparr>)"
    by (simp add: demoEnv_def demoRead8_def demoInInit_def)
  have j: "nimbleSerializeServerInJoinGameRequest (demoEnv ClogOff) ((demoInInit [3, 0, 0, 1])\<lparr>inPos := 1\<rparr>) =
      (0, \<lparr>jrJoinGameType = NimbleSerializeJoinGameTypeNoSecret, jrPartyId = 0, jrSessionSecret = 0, jrPlayerCount = 1,
        jrPlayers = [0], jrNonce = 0\<rparr>, (demoInInit [3, 0, 0, 1])\<lparr>inPos := 4\<rparr>)"
    by (simp add: demoEnv_def demoInJoin_def demoRead8_def demoInInit_def)
  have more: "inPos (demoInInit [3, 0, 0, 1]) \<noteq> inSize (demoInInit [3, 0, 0, 1])" by (simp add: demoInInit_def)
  have "\<exists>r tc. r < 0 \<and> (\<forall>send. feedLoop (demoEnv ClogOff) send 3 0 (demoServer lps ps) (demoInInit [3, 0, 0, 1]) (DWorld 0 [] []) =
      Some (r, setConnection (demoServer lps ps) (unat (3 :: u8)) tc, DWorld 0 [] []))"
    by (rule refused_join_is_not_answered [OF s(1) _ more i r j]) (use s(2,3) in \<open>simp_all add: l plainJoin_def\<close>)
  then show ?thesis by blast
qed

end
