(* ===== verification/ServerStart.thy ===== *)
theory ServerStart
  imports ServerFeed
begin

text \<open>
  How a server comes into being (\<open>src/src/lib/server.c\<close>): \<open>nimbleServerInit\<close> on fresh memory followed by
  \<open>nimbleServerReInitWithGame\<close> establishes the invariant of the server, and \<open>nimbleServerHostMigration\<close>
  fills it with the parties of another host.
\<close>

section \<open>Specification\<close>

text \<open>
  \<open>serverMemory\<close>: the arrays of the structure have their sizes and the connections are as in zeroed
  memory. \<open>acceptableSetup\<close>: the setup is one that the checks of the code do not object to.
\<close>

definition serverMemory :: "'x NimbleServer \<Rightarrow> bool" where
  "serverMemory self \<longleftrightarrow> length (transportConnections self) = 64 \<and>
     (\<forall>tc \<in> set (transportConnections self). gsInvar (tcGameState tc) \<and> unat (tcId tc) < 64) \<and>
     length (cbData (freeTransportConnectionList self)) = 64 \<and>
     length (cbData (freeList (gameParticipants (game self)))) = 64"

definition acceptableSetup :: "'x Env \<Rightarrow> 'x NimbleServerSetup \<Rightarrow> bool" where
  "acceptableSetup E su \<longleftrightarrow> suHasMemory su \<and> suHasBlobAllocator su \<and> suMaxConnectionCount su \<le> 64 \<and>
     suMaxSingleParticipantStepOctetCount su \<le> NimbleStepMaxSingleStepOctetCount E \<and>
     0 < suMaxParticipantCount su \<and> suMaxParticipantCount su < 64 \<and> 0 < NIMBLE_SERIALIZE_MAX_LOCAL_PLAYERS E"

text \<open>A server in which nobody plays: no party, participant or connection is in use.\<close>

definition idleServer :: "'x NimbleServer \<Rightarrow> bool" where
  "idleServer self \<longleftrightarrow> serverWf self \<and> usedParties (localParties self) = {} \<and>
     usedIds (gameParticipants (game self)) = {} \<and> freeConnections self \<and>
     (\<forall>tc \<in> set (transportConnections self). \<not> tcIsUsed tc) \<and>
     (\<forall>p \<in> set (parties (localParties self)). participantReferenceCount (lpReferences p) = 0 \<and> lpTransportConnection p = None)"

text \<open>A server in memory, before initialisation.\<close>

definition demoMemory :: "demo NimbleServer" where
  "demoMemory = (demoServer \<lparr>parties = [], partiesCount = 0, capacityCount = 0, maxLocalPartyParticipantCount = 0,
     maxSingleParticipantStepOctetCount = 0\<rparr> blankRoster)\<lparr>freeTransportConnectionList := emptyRing\<rparr>"

section \<open>Initialisation\<close>

lemma initConnections_run:
  assumes tcs: "length tcs = 64" and fl: "length (cbData fl) = 64"
  shows "\<exists>tcs' fl'. initConnections c tcs fl = Some (tcs', fl') \<and> length tcs' = 64 \<and>
    (\<forall>i < 64. tcs' ! i = initConnection i (tcs ! i)) \<and> cbInvar fl' \<and> cbContents fl' = map of_nat [1..<64]"
proof -
  let ?f = "\<lambda>(tcs, fl) i. do { tcs1 \<leftarrow> modifyAt tcs i (initConnection i);
      fl1 \<leftarrow> nimbleServerCircularBufferWrite c fl (of_nat i); Some (tcs1, fl1) }"
  let ?s = "(tcs[0 := initConnection 0 (tcs ! 0)], nimbleServerCircularBufferInit fl)"
  have pre: "\<exists>tcs' fl'. runAll ?f ?s [1..<n] = Some (tcs', fl') \<and> length tcs' = 64 \<and>
      (\<forall>i < 64. tcs' ! i = (if i < n then initConnection i (tcs ! i) else tcs ! i)) \<and> cbInvar fl' \<and>
      cbContents fl' = map of_nat [1..<n]" if "1 \<le> n" "n \<le> 64" for n
    using that
  proof (induction n rule: nat_induct_at_least)
    case base
    with tcs fl show ?case by (auto simp: nth_list_update)
  next
    case (Suc n)
    then obtain tcs1 fl1 where ih: "runAll ?f ?s [1..<n] = Some (tcs1, fl1)" "length tcs1 = 64"
      "\<forall>i < 64. tcs1 ! i = (if i < n then initConnection i (tcs ! i) else tcs ! i)" "cbInvar fl1"
      "cbContents fl1 = map of_nat [1..<n]" by auto
    have "length (cbContents fl1) < 64" using ih(5) Suc by simp
    then obtain fl2 where w: "nimbleServerCircularBufferWrite c fl1 (of_nat n) = Some fl2" "cbInvar fl2"
      "cbContents fl2 = cbContents fl1 @ [of_nat n]"
      using ring.enq_spec [OF ih(4), where x = "of_nat n" and c = c] by blast
    have "runAll ?f ?s [1..<Suc n] = Some (tcs1[n := initConnection n (tcs1 ! n)], fl2)"
      using Suc(1,3) ih(1,2) w(1) by (simp add: runAll_append)
    with ih w Suc show ?case by (auto simp: nth_list_update less_Suc_eq)
  qed
  have le: "1 \<le> (64 :: nat)" "(64 :: nat) \<le> 64" by simp_all
  obtain tcs' fl' where r: "runAll ?f ?s [1..<64] = Some (tcs', fl')" "length tcs' = 64"
    "\<forall>i < 64. tcs' ! i = (if i < 64 then initConnection i (tcs ! i) else tcs ! i)" "cbInvar fl'"
    "cbContents fl' = map of_nat [1..<64]"
    using pre [OF le] by (elim exE conjE) (rule that)
  have "initConnections c tcs fl = runAll ?f ?s [1..<64]"
    using tcs by (simp add: initConnections_def NIMBLE_NIMBLE_SERVER_MAX_TRANSPORT_CONNECTIONS_def)
  with r show ?thesis by (intro exI [of _ tcs'] exI [of _ fl']) auto
qed

lemma localPartiesReset_run:
  assumes "length (parties lps) = unat (capacityCount lps)"
  shows "nimbleServerLocalPartiesReset lps = Some (lps\<lparr>parties := map nimbleServerLocalPartyReset (parties lps)\<rparr>)"
proof -
  have "runAll (\<lambda>ps i. modifyAt ps i nimbleServerLocalPartyReset) xs [0..<n] =
      Some (map nimbleServerLocalPartyReset (take n xs) @ drop n xs)" if "n \<le> length xs"
    for n and xs :: "'a NimbleServerLocalParty list"
    using that
  proof (induction n)
    case (Suc n)
    then show ?case
      by (simp add: runAll_append nth_append take_Suc_conv_app_nth list_update_append Cons_nth_drop_Suc [symmetric])
  qed simp
  from this [of "unat (capacityCount lps)" "parties lps"] assms show ?thesis
    by (simp add: nimbleServerLocalPartiesReset_def)
qed

text \<open>Parties of which none is in use form a session with participants of which none is in use.\<close>

lemma sessionWf_idle:
  assumes "participantsWf ps" "usedIds ps = {}" "length (parties lps) = unat (capacityCount lps)" "capacityCount lps \<le> 64"
    "partiesCount lps = 0" "\<forall>p \<in> set (parties lps). \<not> lpIsUsed p \<and> participantReferences (lpReferences p) \<noteq> [] \<and>
       participantReferenceCount (lpReferences p) = 0"
  shows "sessionWf lps ps" "usedParties lps = {}"
proof -
  show used: "usedParties lps = {}" using assms(6) by (auto simp: usedParties_def)
  have "participantsHaveParty (length (parties lps)) (participants ps)"
    using assms(2) by (fastforce simp: participantsHaveParty_def usedIds_def in_set_conv_nth)
  moreover have "partiesRefs (length (participants ps)) (parties lps)"
    using assms(6) by (simp add: partiesRefs_def refsValid_def)
  ultimately show "sessionWf lps ps"
    using assms(1,3-6) used by (simp add: sessionWf_def partiesShape_def partiesOwn_def)
qed

lemma init_run:
  assumes mem: "serverMemory self" and su: "acceptableSetup E su"
  shows "\<exists>self' w'. nimbleServerInit E self su w = Some (0, self', w') \<and> connectionTable self' \<and>
    cbContents (freeTransportConnectionList self') = map of_nat [1..<64] \<and> serverSetup self' = su \<and> game self' = game self \<and>
    (\<forall>tc \<in> set (transportConnections self'). \<not> tcIsUsed tc \<and> tcAssignedParty tc = None \<and> gsInvar (tcGameState tc) \<and> unat (tcId tc) < 64) \<and>
    (\<exists>q. localParties self' = nimbleServerLocalPartiesInit E q (suMaxConnectionCount su)
       (suMaxParticipantCountForEachConnection su) (suMaxSingleParticipantStepOctetCount su))"
proof -
  obtain tcs fl where ic: "initConnections (clogMode E) (transportConnections self) (freeTransportConnectionList self) = Some (tcs, fl)"
    and len: "length tcs = 64" and nth: "\<forall>i < 64. tcs ! i = initConnection i (transportConnections self ! i)"
    and fl: "cbInvar fl" "cbContents fl = map of_nat [1..<64]"
    using initConnections_run [of "transportConnections self" "freeTransportConnectionList self" "clogMode E"] mem
    by (auto simp: serverMemory_def)
  obtain q w' where uq: "nimbleServerUpdateQualityInit E w (updateQuality self) (suTargetTickTimeMs su) = (q, w')"
    by (metis prod.exhaust)
  have conn: "\<forall>tc \<in> set tcs. \<not> tcIsUsed tc \<and> tcAssignedParty tc = None \<and> gsInvar (tcGameState tc) \<and> unat (tcId tc) < 64"
    using mem len nth by (fastforce simp: serverMemory_def initConnection_def in_set_conv_nth)
  have ids: "unat (tcTransportConnectionId (tcs ! i)) = i" if "i < 64" for i
    using that nth by (simp add: initConnection_def unsigned_of_nat take_bit_nat_eq_self)
  have free: "unat x < 64" if "x \<in> set (map of_nat [1..<64] :: u8 list)" for x
    using that by (auto simp: unsigned_of_nat take_bit_nat_eq_self)
  let ?S = "self\<lparr>localParties := nimbleServerLocalPartiesInit E (localParties self) (suMaxConnectionCount su)
      (suMaxParticipantCountForEachConnection su) (suMaxSingleParticipantStepOctetCount su),
    applicationVersion := suApplicationVersion su, serverSetup := su, transportConnections := tcs,
    freeTransportConnectionList := fl,
    authoritativeStepsPerSecondStat := statsIntPerSecondInit E (authoritativeStepsPerSecondStat self) (suNow su) 1000,
    updateQuality := q\<rparr>"
  have ok: "\<not> 64 < suMaxConnectionCount su" "\<not> 64 < suMaxParticipantCount su" "suHasMemory su" "suHasBlobAllocator su"
    "\<not> NimbleStepMaxSingleStepOctetCount E < suMaxSingleParticipantStepOctetCount su"
    using su by (auto simp: acceptableSetup_def not_less intro: less_imp_le)
  have "nimbleServerInit E self su w = Some (0, ?S, w')"
    using ic uq by (simp add: nimbleServerInit_def ok NIMBLE_NIMBLE_SERVER_MAX_TRANSPORT_CONNECTIONS_def)
  moreover have "connectionTable ?S"
    using len ids fl free by (simp add: connectionTable_def NIMBLE_NIMBLE_SERVER_MAX_TRANSPORT_CONNECTIONS_def)
  ultimately show ?thesis using conn fl(2) by (intro exI [of _ ?S] exI [of _ w']) auto
qed

lemma reInit_run:
  assumes len: "length (cbData (freeList (gameParticipants (game self)))) = 64"
    and su: "0 < suMaxParticipantCount (serverSetup self)" "suMaxParticipantCount (serverSetup self) < 64"
    and cap: "length (parties (localParties self)) = unat (capacityCount (localParties self))"
  shows "\<exists>self' w' g q st. nimbleServerReInitWithGame E self stepId now w = Some (0, self', w') \<and>
    self' = self\<lparr>game := g, localParties := (localParties self)\<lparr>parties :=
      map nimbleServerLocalPartyReset (parties (localParties self))\<rparr>, updateQuality := q,
      authoritativeStepsPerSecondStat := st, statsCounter := 0\<rparr> \<and>
    participantsWf (gameParticipants g) \<and> usedIds (gameParticipants g) = {} \<and>
    participantCapacity (gameParticipants g) = suMaxParticipantCount (serverSetup self) \<and>
    (\<exists>s. authoritativeSteps g = nbsStepsReInit E s stepId)"
proof -
  obtain ps where ps: "nimbleServerParticipantsInit E (gameParticipants (game self)) (suMaxParticipantCount (serverSetup self))
      (suMaxSingleParticipantStepOctetCount (serverSetup self)) = Some ps" "participantsWf ps" "usedIds ps = {}"
    "participantCapacity ps = suMaxParticipantCount (serverSetup self)"
    using participantsInit_spec [OF len su] by blast
  obtain q w' where uq: "nimbleServerUpdateQualityReInit E w (updateQuality self) = (q, w')" by (metis prod.exhaust)
  let ?steps = "nbsStepsReInit E (nbsStepsInit E (authoritativeSteps (game self)) (nbsStepsOutSerializeCalculateCombinedSize E
    (suMaxParticipantCount (serverSetup self)) (suMaxSingleParticipantStepOctetCount (serverSetup self)))) 0"
  let ?g = "(game self)\<lparr>debugIsFrozen := False, authoritativeSteps := nbsStepsReInit E ?steps stepId, gameParticipants := ps\<rparr>"
  let ?S = "self\<lparr>game := ?g, localParties := (localParties self)\<lparr>parties :=
      map nimbleServerLocalPartyReset (parties (localParties self))\<rparr>, updateQuality := q,
      authoritativeStepsPerSecondStat := statsIntPerSecondInit E (authoritativeStepsPerSecondStat self) now 1000, statsCounter := 0\<rparr>"
  have "nimbleServerReInitWithGame E self stepId now w = Some (0, ?S, w')"
    using ps(1) uq localPartiesReset_run [OF cap]
    by (simp add: nimbleServerReInitWithGame_def nimbleServerGameInit_def Let_def)
  moreover have "participantsWf (gameParticipants ?g)" "usedIds (gameParticipants ?g) = {}"
    "participantCapacity (gameParticipants ?g) = suMaxParticipantCount (serverSetup self)"
    "\<exists>s. authoritativeSteps ?g = nbsStepsReInit E s stepId"
    using ps by auto
  ultimately show ?thesis by blast
qed

lemma start_run:
  fixes E :: "'x Env" and self :: "'x NimbleServer"
  assumes mem: "serverMemory self" and su: "acceptableSetup E su"
  shows "\<exists>self1 w1 self2 w2. nimbleServerInit E self su w = Some (0, self1, w1) \<and>
    nimbleServerReInitWithGame E self1 stepId now w1 = Some (0, self2, w2) \<and> idleServer self2 \<and> partiesCount (localParties self2) = 0 \<and>
    length (parties (localParties self2)) = unat (suMaxConnectionCount su) \<and>
    participantCapacity (gameParticipants (game self2)) = suMaxParticipantCount su \<and>
    cbContents (freeTransportConnectionList self2) = map of_nat [1..<64]"
proof -
  obtain self1 w1 q where i: "nimbleServerInit E self su w = Some (0, self1, w1)"
    and i1: "connectionTable self1" "cbContents (freeTransportConnectionList self1) = map of_nat [1..<64]"
    and i2: "serverSetup self1 = su" "game self1 = game self"
    and i3: "\<forall>tc \<in> set (transportConnections self1). \<not> tcIsUsed tc \<and> tcAssignedParty tc = None \<and> gsInvar (tcGameState tc) \<and> unat (tcId tc) < 64"
    and i4: "localParties self1 = nimbleServerLocalPartiesInit E q (suMaxConnectionCount su)
       (suMaxParticipantCountForEachConnection su) (suMaxSingleParticipantStepOctetCount su)"
    using init_run [OF mem su, of w] by blast
  let ?pl = "parties (localParties self1)"
  have cap: "length ?pl = unat (capacityCount (localParties self1))" "capacityCount (localParties self1) = suMaxConnectionCount su"
    "partiesCount (localParties self1) = 0"
    by (simp_all add: i4 nimbleServerLocalPartiesInit_def)
  have su': "0 < suMaxParticipantCount (serverSetup self1)" "suMaxParticipantCount (serverSetup self1) < 64"
    using su i2(1) by (simp_all add: acceptableSetup_def)
  have data: "length (cbData (freeList (gameParticipants (game self1)))) = 64" using mem i2(2) by (simp add: serverMemory_def)
  obtain self2 w2 g uq st where r: "nimbleServerReInitWithGame E self1 stepId now w1 = Some (0, self2, w2)"
    and r1: "self2 = self1\<lparr>game := g, localParties := (localParties self1)\<lparr>parties := map nimbleServerLocalPartyReset ?pl\<rparr>,
      updateQuality := uq, authoritativeStepsPerSecondStat := st, statsCounter := 0\<rparr>"
    and r2: "participantsWf (gameParticipants g)" "usedIds (gameParticipants g) = {}"
      "participantCapacity (gameParticipants g) = suMaxParticipantCount su"
    using reInit_run [OF data su' cap(1), of E stepId now w1, unfolded i2(1)] by (elim exE conjE) (rule that)
  let ?lps = "(localParties self1)\<lparr>parties := map nimbleServerLocalPartyReset ?pl\<rparr>"
  have fresh: "\<forall>p \<in> set (parties ?lps). \<not> lpIsUsed p \<and> participantReferences (lpReferences p) \<noteq> [] \<and>
      participantReferenceCount (lpReferences p) = 0 \<and> lpTransportConnection p = None"
    using su by (auto simp: i4 nimbleServerLocalPartiesInit_def nimbleServerLocalPartyInit_def nimbleServerLocalPartyReInit_def
        nimbleServerLocalPartyReset_def zeroedParty_def acceptableSetup_def Let_def)
  have ses: "sessionWf ?lps (gameParticipants g)" "usedParties ?lps = {}"
    using sessionWf_idle [OF r2(1,2), of ?lps] cap su fresh by (simp_all add: acceptableSetup_def)
  have tab: "connectionTable self2" using i1(1) r1 by simp
  have "serverWf self2"
    using tab ses(1) fresh i3 unfolding serverWf_def
    by (simp add: r1 connectionWf_def servesParty_def NIMBLE_NIMBLE_SERVER_MAX_TRANSPORT_CONNECTIONS_def)
  moreover have "freeConnections self2"
    using i1 i3 by (auto simp: r1 freeConnections_def connectionTable_def)
  ultimately have "idleServer self2" using ses(2) r2(2) i3 fresh by (simp add: idleServer_def r1)
  moreover have "length (parties (localParties self2)) = unat (suMaxConnectionCount su)"
    "participantCapacity (gameParticipants (game self2)) = suMaxParticipantCount su" "partiesCount (localParties self2) = 0"
    "cbContents (freeTransportConnectionList self2) = map of_nat [1..<64]"
    using r1 r2(3) cap i1(2) by simp_all
  ultimately show ?thesis using i r by blast
qed

section \<open>Properties\<close>

text \<open>
  C4. Initialising a server in fresh memory with an acceptable setup and giving it a game succeeds in both
  builds and establishes the invariant of the server: 64 connections with their positions as ids, of which
  all but the first are on the free list in order, as many places for parties and participants as the setup
  asks for, and nobody in the session.
\<close>

theorem start_establishes_invariant:
  assumes "serverMemory self" "acceptableSetup E su"
  shows "\<exists>self1 w1 self2 w2. nimbleServerInit E self su w = Some (0, self1, w1) \<and>
    nimbleServerReInitWithGame E self1 stepId now w1 = Some (0, self2, w2) \<and>
    serverWf self2 \<and> idleServer self2 \<and>
    length (parties (localParties self2)) = unat (suMaxConnectionCount su) \<and>
    participantCapacity (gameParticipants (game self2)) = suMaxParticipantCount su \<and>
    cbContents (freeTransportConnectionList self2) = map of_nat [1..<64]"
  using start_run [OF assms, of w stepId now] by (auto simp: idleServer_def)

lemma demoMemory_ok: "serverMemory demoMemory"
  by (auto simp: serverMemory_def demoMemory_def demoServer_def demoConnection_def gsInvar_def emptyRing_def demoGame_def
      blankRoster_def)

lemma demo_setup: "acceptableSetup (demoEnv c) (serverSetup demoMemory)"
  by (simp add: acceptableSetup_def demoMemory_def demoServer_def demoEnv_def)

theorem start_establishes_invariant_witness:
  "\<exists>self1 w1 self2 w2. nimbleServerInit (demoEnv ClogFatal) demoMemory (serverSetup demoMemory) (DWorld 0 [] []) = Some (0, self1, w1) \<and>
    nimbleServerReInitWithGame (demoEnv ClogFatal) self1 7 0 w1 = Some (0, self2, w2) \<and> serverWf self2"
  using start_establishes_invariant [OF demoMemory_ok demo_setup, of ClogFatal "DWorld 0 [] []" 7 0] by blast

end
