(* ===== verification/HostMigration.thy ===== *)
theory HostMigration
  imports ServerStart
begin

text \<open>
  Taking over the session of another host, \<open>nimbleServerHostMigration\<close> of \<open>src/src/lib/server.c\<close>: every party
  of the old host gets a place and waits for its client to come back, and the ids of its participants stay
  reserved for it.
\<close>

section \<open>Specification\<close>

text \<open>
  \<open>infoFor info x\<close>: the information about a party with the one participant \<open>x\<close>. While the parties are being
  prepared the free list of the participants is not kept, so the invariant of the session holds without it:
  \<open>sessionCore\<close>.
\<close>

definition infoFor :: "NimbleSerializeLocalPartyInfo \<Rightarrow> u8 \<Rightarrow> bool" where
  "infoFor info x \<longleftrightarrow> piParticipantCount info = 1 \<and> (\<exists>rest. piParticipantIds info = x # rest)"

definition sessionCore :: "'x NimbleServerLocalParties \<Rightarrow> 'x NimbleServerParticipants \<Rightarrow> bool" where
  "sessionCore lps ps \<longleftrightarrow> partiesShape lps \<and> participantsShape ps \<and> partiesOwn lps (participants ps) \<and>
     participantsHaveParty (length (parties lps)) (participants ps) \<and> partiesRefs (length (participants ps)) (parties lps)"

text \<open>The party at \<open>j\<close> waits for the client that had the participant \<open>x\<close>.\<close>

definition awaits :: "'x NimbleServerLocalParties \<Rightarrow> 'x NimbleServerParticipants \<Rightarrow> nat \<Rightarrow> u8 \<Rightarrow> bool" where
  "awaits lps ps j x \<longleftrightarrow> lpState (parties lps ! j) = NimbleServerLocalPartyStateWaitingForReJoin \<and>
     lpWaitingForReconnectTimer (parties lps ! j) = 0 \<and> lpId (parties lps ! j) = of_nat j \<and>
     participantReferenceCount (lpReferences (parties lps ! j)) = 1 \<and>
     refIndices (lpReferences (parties lps ! j)) = {unat x} \<and>
     pState (participants ps ! unat x) = NimbleServerParticipantStateWaitingForRejoin \<and>
     pInParty (participants ps ! unat x) = Some j \<and> pId (participants ps ! unat x) = x \<and>
     pLocalIndex (participants ps ! unat x) = 0"

text \<open>The first \<open>i\<close> parties are prepared.\<close>

definition migrated :: "u8 list \<Rightarrow> nat \<Rightarrow> 'x NimbleServerLocalParties \<Rightarrow> 'x NimbleServerParticipants \<Rightarrow> bool" where
  "migrated ids i lps ps \<longleftrightarrow> sessionCore lps ps \<and> usedParties lps = {0..<i} \<and> usedIds ps = unat ` set (take i ids) \<and>
     (\<forall>j < i. awaits lps ps j (ids ! j)) \<and> (\<forall>p \<in> set (parties lps). lpTransportConnection p = None)"

text \<open>The ids that are free after a migration, in the order the code puts them on the list.\<close>

definition unclaimed :: "u8 list \<Rightarrow> nat \<Rightarrow> u8 list" where
  "unclaimed ids n = filter (\<lambda>x. x \<notin> set ids) (map of_nat [0..<n])"

section \<open>Preparing the parties\<close>

lemma participantsPrepare_run:
  assumes sh: "participantsShape ps" and x: "unat x < length (participants ps)" "unat x \<notin> usedIds ps"
  shows "\<exists>q ps'. nimbleServerParticipantsPrepare E ps x (Some i) stepId = Some (0, Some (unat x), ps') \<and>
    ps' = ps\<lparr>freeList := freeList ps, participants := (participants ps)[unat x := q], participantCount := participantCount ps + 1\<rparr> \<and>
    pIsUsed q \<and> pInParty q = Some i \<and> pId q = x \<and> pState q = NimbleServerParticipantStateWaitingForRejoin \<and> pLocalIndex q = 0"
proof -
  have "card (usedIds ps) + 1 \<le> length (participants ps)"
    using x card_mono [of "{0..<length (participants ps)}" "insert (unat x) (usedIds ps)"] usedIds_subset [of ps] by auto
  then have room: "\<not> participantCount ps + 1 > participantCapacity ps"
    using sh unat_inc [of "participantCount ps"] by (auto simp: participantsShape_def word_less_nat_alt)
  have range: "\<not> (ucast x \<ge> participantCapacity ps)"
    using sh x(1) by (auto simp: participantsShape_def word_le_nat_alt unsigned_ucast_eq)
  have unused: "\<not> pIsUsed (participants ps ! unat x)" using x by (simp add: usedIds_def)
  show ?thesis
    by (rule exI [of _ "(participants ps ! unat x)\<lparr>pSteps := nbsStepsReInit E (pSteps (participants ps ! unat x)) stepId,
      pInParty := Some i, pLocalIndex := 0, pIsUsed := True, pState := NimbleServerParticipantStateWaitingForRejoin, pId := x\<rparr>"])
      (use x(1) unused room range in \<open>simp add: nimbleServerParticipantsPrepare_def nimbleServerParticipantReInit_def Let_def\<close>)
qed

lemma localPartiesPrepare_run:
  fixes E :: "'x Env" and lps :: "'x NimbleServerLocalParties"
  assumes core: "sessionCore lps ps" and used: "usedParties lps = {0..<i}" and i: "i < length (parties lps)"
    and x: "unat x < length (participants ps)" "unat x \<notin> usedIds ps" and info: "infoFor info x"
  shows "\<exists>p q lps' ps'. nimbleServerLocalPartiesPrepare E lps ps stepId info = Some (0, Some i, lps', ps') \<and> sessionCore lps' ps' \<and>
    lps' = lps\<lparr>partiesCount := partiesCount lps + 1, parties := (parties lps)[i := p]\<rparr> \<and>
    ps' = ps\<lparr>freeList := freeList ps, participants := (participants ps)[unat x := q], participantCount := participantCount ps + 1\<rparr> \<and>
    usedParties lps' = {0..<Suc i} \<and> usedIds ps' = insert (unat x) (usedIds ps) \<and> awaits lps' ps' i x \<and> lpTransportConnection p = None"
proof -
  have sh: "partiesShape lps" "participantsShape ps" using core by (auto simp: sessionCore_def)
  have free: "usedParties lps \<noteq> {0..<length (parties lps)}" using used i by auto
  have least: "(LEAST j. j \<notin> usedParties lps) = i" unfolding used by (rule Least_equality) auto
  note find = findFreeParty_room(3) [OF sh(1) free, unfolded least]
  obtain q ps' where prep: "nimbleServerParticipantsPrepare E ps x (Some i) stepId = Some (0, Some (unat x), ps')"
    and ps': "ps' = ps\<lparr>freeList := freeList ps, participants := (participants ps)[unat x := q], participantCount := participantCount ps + 1\<rparr>"
    and q: "pIsUsed q" "pInParty q = Some i" "pId q = x" "pState q = NimbleServerParticipantStateWaitingForRejoin" "pLocalIndex q = 0"
    using participantsPrepare_run [OF sh(2) x, of E i stepId] by blast
  obtain r rs where refs: "participantReferences (lpReferences (parties lps ! i)) = r # rs"
    using sh(1) i by (cases "participantReferences (lpReferences (parties lps ! i))") (auto simp: partiesShape_def)
  let ?p = "(nimbleServerLocalPartyReInit E ((parties lps ! i)\<lparr>lpId := of_nat i\<rparr>) None)\<lparr>lpReferences :=
      \<lparr>participantReferenceCount = 1, participantReferences = Some (unat x) # rs\<rparr>, lpIsUsed := True,
    lpState := NimbleServerLocalPartyStateWaitingForReJoin, lpWaitingForReconnectTimer := 0\<rparr>"
  let ?lps' = "lps\<lparr>partiesCount := partiesCount lps + 1, parties := (parties lps)[i := ?p]\<rparr>"
  obtain rest where ids: "piParticipantCount info = 1" "piParticipantIds info = x # rest" using info by (auto simp: infoFor_def)
  have run: "nimbleServerLocalPartiesPrepare E lps ps stepId info = Some (0, Some i, ?lps', ps')"
    using i refs prep ids
    by (simp add: nimbleServerLocalPartiesPrepare_def find addParty_one hd_conv_nth)
  have unused: "\<not> pIsUsed (participants ps ! unat x)" using x by (simp add: usedIds_def)
  have owns: "partyOwns (participants ps') i ?p" "refIndices (lpReferences ?p) = {unat x}"
    using partyOwns_single [of "unat x" "participants ps'" i ?p rs] x(1) ps' q by simp_all
  have "partiesOwn ?lps' (participants ps')"
    using partiesOwn_takeSlot [of lps "participants ps" "unat x" q i ?p] core unused x(1) owns(1) ps' by (simp add: sessionCore_def)
  moreover have "participantsHaveParty (length (parties ?lps')) (participants ps')"
    using participantsHaveParty_update [of _ "participants ps" q i "unat x"] core i q(2) ps' by (simp add: sessionCore_def)
  moreover have shape': "partiesShape ?lps'" "usedParties ?lps' = insert i (usedParties lps)"
    using partiesShape_take [OF sh(1) i, of ?p] used by simp_all
  moreover have "partiesRefs (length (participants ps')) (parties ?lps')"
    using partiesRefs_update [of _ "parties lps" ?p i] core owns(1) ps' by (simp add: sessionCore_def partyOwns_def)
  moreover have "participantsShape ps'" unfolding ps' by (rule participantsShape_take [OF sh(2) x q(1)]) (simp add: q(3))
  ultimately have "sessionCore ?lps' ps'" by (simp add: sessionCore_def)
  moreover have "usedIds ps' = insert (unat x) (usedIds ps)"
    using usedIds_set_used [of "unat x" ps q] x(1) q(1) ps' by (simp add: usedIds_def)
  moreover have "awaits ?lps' ps' i x"
    using i x(1) owns(2) q ps' by (simp add: awaits_def nimbleServerLocalPartyReInit_def)
  moreover have "usedParties ?lps' = {0..<Suc i}" using shape'(2) used by (simp add: atLeast0_lessThan_Suc)
  moreover have "lpTransportConnection ?p = None" by (simp add: nimbleServerLocalPartyReInit_def)
  ultimately show ?thesis using run ps' by blast
qed

lemma awaits_frame:
  assumes "awaits lps ps j y" "j \<noteq> i" "x \<noteq> y"
  shows "awaits (lps\<lparr>partiesCount := n, parties := (parties lps)[i := p]\<rparr>)
    (ps\<lparr>freeList := fl, participants := (participants ps)[unat x := q], participantCount := m\<rparr>) j y"
  using assms by (simp add: awaits_def word_unat_eq_iff)

lemma migrated_step:
  fixes E :: "'x Env" and lps :: "'x NimbleServerLocalParties"
  assumes mig: "migrated ids i lps ps" and i: "i < length ids" "length ids \<le> length (parties lps)"
    and ids: "distinct ids" "\<forall>x \<in> set ids. unat x < length (participants ps)" and info: "infoFor info (ids ! i)"
  shows "\<exists>lps' ps'. nimbleServerLocalPartiesPrepare E lps ps stepId info = Some (0, Some i, lps', ps') \<and> migrated ids (Suc i) lps' ps' \<and>
    length (parties lps') = length (parties lps) \<and> freeList ps' = freeList ps \<and> participantCapacity ps' = participantCapacity ps \<and>
    length (participants ps') = length (participants ps)"
proof -
  let ?x = "ids ! i"
  have i': "i < length (parties lps)" using i by simp
  have new: "?x \<notin> set (take i ids)" using ids(1) i(1) by (metis distinct_take distinct_append take_Suc_conv_app_nth not_distinct_conv_prefix)
  then have x: "unat ?x < length (participants ps)" "unat ?x \<notin> usedIds ps"
    using ids(2) i(1) mig by (auto simp: migrated_def word_unat_eq_iff [symmetric])
  have m: "sessionCore lps ps" "usedParties lps = {0..<i}" "usedIds ps = unat ` set (take i ids)" "\<forall>j < i. awaits lps ps j (ids ! j)"
    "\<forall>p \<in> set (parties lps). lpTransportConnection p = None"
    using mig by (auto simp: migrated_def)
  obtain p q lps' ps' where r: "nimbleServerLocalPartiesPrepare E lps ps stepId info = Some (0, Some i, lps', ps')" "sessionCore lps' ps'"
    "lps' = lps\<lparr>partiesCount := partiesCount lps + 1, parties := (parties lps)[i := p]\<rparr>"
    "ps' = ps\<lparr>freeList := freeList ps, participants := (participants ps)[unat ?x := q], participantCount := participantCount ps + 1\<rparr>"
    "usedParties lps' = {0..<Suc i}" "usedIds ps' = insert (unat ?x) (usedIds ps)" "awaits lps' ps' i ?x" "lpTransportConnection p = None"
    using localPartiesPrepare_run [OF m(1,2) i' x info, of E stepId] by blast
  have "awaits lps' ps' j (ids ! j)" if "j < Suc i" for j
  proof (cases "j = i")
    case False
    with that ids(1) i(1) have "?x \<noteq> ids ! j" by (simp add: nth_eq_iff_index_eq)
    with False that m(4) show ?thesis unfolding r(3,4) by (intro awaits_frame) auto
  qed (simp add: r(7))
  moreover have "usedIds ps' = unat ` set (take (Suc i) ids)" using r(6) m(3) i(1) by (simp add: take_Suc_conv_app_nth)
  moreover have "\<forall>p \<in> set (parties lps'). lpTransportConnection p = None"
    using m(5) r(3,8) set_update_subset_insert [of "parties lps" i p] by auto
  ultimately have "migrated ids (Suc i) lps' ps'" using r(2,5) by (simp add: migrated_def)
  with r(1,3,4) show ?thesis by simp
qed

lemma prepareParties_run:
  assumes "migrated ids i lps ps" "i + n = length ids" "length ids \<le> length (parties lps)" "distinct ids"
    "\<forall>x \<in> set ids. unat x < length (participants ps)" "list_all2 infoFor infos ids"
  shows "\<exists>lps' ps'. preparePartiesFrom E stepId infos i n lps ps = Some (0, lps', ps') \<and> migrated ids (length ids) lps' ps' \<and>
    length (parties lps') = length (parties lps) \<and> freeList ps' = freeList ps \<and> participantCapacity ps' = participantCapacity ps"
  using assms
proof (induction n arbitrary: i lps ps)
  case (Suc n)
  then have i: "i < length ids" by simp
  then have info: "infoFor (infos ! i) (ids ! i)" "i < length infos" using Suc.prems(6) by (auto simp: list_all2_conv_all_nth)
  obtain lps1 ps1 where r: "nimbleServerLocalPartiesPrepare E lps ps stepId (infos ! i) = Some (0, Some i, lps1, ps1)"
    "migrated ids (Suc i) lps1 ps1" "length (parties lps1) = length (parties lps)" "freeList ps1 = freeList ps"
    "participantCapacity ps1 = participantCapacity ps" "length (participants ps1) = length (participants ps)"
    using migrated_step [OF Suc.prems(1) i Suc.prems(3-5) info(1), of E stepId] by blast
  from Suc.IH [OF r(2)] Suc.prems r(3-6) show ?case using r(1) info(2) by simp
qed simp

section \<open>The free list\<close>

lemma containsParticipant_run:
  assumes infos: "list_all2 infoFor infos ids"
  shows "i + n \<le> length ids \<Longrightarrow> containsParticipantFrom infos x i n = Some (\<exists>j. i \<le> j \<and> j < i + n \<and> ids ! j = x)"
proof (induction n arbitrary: i)
  case (Suc n)
  then have i: "i < length infos" using list_all2_lengthD [OF infos] by simp
  then obtain rest where info: "piParticipantCount (infos ! i) = 1" "piParticipantIds (infos ! i) = ids ! i # rest"
    using infos by (auto simp: list_all2_conv_all_nth infoFor_def)
  have range: "i \<le> j \<and> j < i + Suc n \<longleftrightarrow> j = i \<or> Suc i \<le> j \<and> j < Suc i + n" for j by auto
  have "(\<exists>j. i \<le> j \<and> j < i + Suc n \<and> ids ! j = x) \<longleftrightarrow> x = ids ! i \<or> (\<exists>j. Suc i \<le> j \<and> j < Suc i + n \<and> ids ! j = x)"
    unfolding conj_assoc [symmetric] range by blast
  with Suc i info show ?case by simp
qed simp

lemma containsParticipantId_run:
  assumes "list_all2 infoFor infos ids" "length ids < 2 ^ 64"
  shows "containsParticipantId infos (of_nat (length infos)) x = Some (x \<in> set ids)"
  using containsParticipant_run [OF assms(1), of 0 "length ids" x] list_all2_lengthD [OF assms(1)] assms(2)
  by (auto simp: containsParticipantId_def in_set_conv_nth)

lemma unclaimed_Suc: "unclaimed ids (Suc n) = unclaimed ids n @ (if of_nat n \<in> set ids then [] else [of_nat n])"
  by (simp add: unclaimed_def)

lemma refill_run:
  assumes fl: "length (cbData fl) = 64" and n: "unat cap < 64" and infos: "list_all2 infoFor infos ids" "length ids < 2 ^ 64"
    and ids: "\<forall>x \<in> set ids. unat x < unat cap"
  shows "\<exists>fl'. refillFreeList c infos (of_nat (length infos)) cap fl = Some fl' \<and> cbContents fl' = unclaimed ids (unat cap) \<and>
    ringPool (unat cap) fl' (unat ` set ids)"
proof -
  let ?f = "\<lambda>fl i. do { found \<leftarrow> containsParticipantId infos (of_nat (length infos)) (of_nat i);
      if found then Some fl else nimbleServerCircularBufferWrite c fl (of_nat i) }"
  have loop: "runAll ?f q [0..<k] = runAll (nimbleServerCircularBufferWrite c) q (unclaimed ids k)" for q k
  proof (induction k)
    case 0
    then show ?case by (simp add: unclaimed_def)
  next
    case (Suc k)
    then show ?case
      by (simp add: runAll_append unclaimed_Suc containsParticipantId_run [OF infos])
  qed
  have inj: "inj_on (of_nat :: nat \<Rightarrow> u8) {0..<unat cap}" using n by (auto intro!: inj_on_inverseI [where g = unat])
  have "(of_nat k :: u8) \<in> set ids \<longleftrightarrow> k \<in> unat ` set ids" if "k < unat cap" for k
    using that n by (force simp: image_iff unat_of_nat)
  then have "unat ` set (unclaimed ids (unat cap)) = {0..<unat cap} - unat ` set ids"
    using n by (force simp: unclaimed_def image_image unat_of_nat)
  moreover have "distinct (unclaimed ids (unat cap))" using inj by (simp add: unclaimed_def distinct_map)
  moreover have "length (unclaimed ids (unat cap)) \<le> 64"
    using n length_filter_le [of "\<lambda>x. x \<notin> set ids" "map of_nat [0..<unat cap] :: u8 list"] by (simp add: unclaimed_def)
  moreover have "unat ` set ids \<subseteq> {0..<unat cap}" using ids by auto
  ultimately obtain fl' where
    "runAll (nimbleServerCircularBufferWrite c) (nimbleServerCircularBufferInit fl) (unclaimed ids (unat cap)) = Some fl'"
    "cbContents fl' = unclaimed ids (unat cap)" "ringPool (unat cap) fl' (unat ` set ids)"
    using ring_pool.pool_fill [of "nimbleServerCircularBufferInit fl" "unclaimed ids (unat cap)" "unat cap" "unat ` set ids" c] fl
    by auto
  moreover have "\<not> cap > 255" using n by (simp add: word_less_nat_alt)
  ultimately show ?thesis by (simp add: refillFreeList_def loop)
qed

section \<open>The migration\<close>

lemma hostMigration_run:
  assumes idle: "idleServer self" and infos: "list_all2 infoFor infos ids" "distinct ids"
    and ids: "\<forall>x \<in> set ids. unat x < unat (participantCapacity (gameParticipants (game self)))"
    and room: "length ids \<le> length (parties (localParties self))"
  shows "\<exists>self' lps' ps'. nimbleServerHostMigration E self infos (of_nat (length infos)) = Some (0, self') \<and> serverWf self' \<and>
    self' = self\<lparr>localParties := lps', game := (game self)\<lparr>gameParticipants := ps'\<rparr>\<rparr> \<and>
    usedParties lps' = {0..<length ids} \<and> usedIds ps' = unat ` set ids \<and>
    (\<forall>j < length ids. awaits lps' ps' j (ids ! j)) \<and>
    cbContents (freeList ps') = unclaimed ids (unat (participantCapacity ps')) \<and>
    participantCapacity ps' = participantCapacity (gameParticipants (game self)) \<and>
    length (parties lps') = length (parties (localParties self)) \<and>
    (\<forall>p \<in> set (parties lps'). lpTransportConnection p = None)"
proof -
  let ?lps = "localParties self" and ?ps = "gameParticipants (game self)"
  let ?blank = "?lps\<lparr>parties := map nimbleServerLocalPartyReset (parties ?lps)\<rparr>"
  have wf: "serverWf self" and used: "usedParties ?lps = {}" "usedIds ?ps = {}"
    and fresh: "\<forall>p \<in> set (parties ?lps). participantReferenceCount (lpReferences p) = 0 \<and> lpTransportConnection p = None"
    using idle by (auto simp: idleServer_def)
  have shape: "partiesShape ?lps" and pwf: "participantsWf ?ps" using serverWf_session [OF wf] by (auto simp: sessionWf_def)
  have cap: "length (parties ?lps) = unat (capacityCount ?lps)" "capacityCount ?lps \<le> 64" "partiesCount ?lps = 0"
    using shape used(1) by (auto simp: partiesShape_def unat_eq_0)
  have len: "length (participants ?ps) = unat (participantCapacity ?ps)" "unat (participantCapacity ?ps) < 64"
    "cbInvar (freeList ?ps)"
    using pwf by (auto simp: participantsWf_def participantsShape_def idPool_def word_less_nat_alt)
  have reset: "\<forall>p \<in> set (parties ?blank). \<not> lpIsUsed p \<and> participantReferences (lpReferences p) \<noteq> [] \<and>
      participantReferenceCount (lpReferences p) = 0 \<and> lpTransportConnection p = None"
    using shape fresh by (auto simp: nimbleServerLocalPartyReset_def partiesShape_def)
  have ses: "sessionWf ?blank ?ps" "usedParties ?blank = {}"
    using sessionWf_idle [OF pwf used(2), of ?blank] cap reset by simp_all
  then have start: "migrated ids 0 ?blank ?ps"
    using used(2) reset by (simp add: migrated_def sessionCore_def sessionWf_def participantsWf_def)
  have small: "length ids < 2 ^ 64" using room cap by (simp add: word_le_nat_alt)
  have eqlen: "length infos = length ids" by (rule list_all2_lengthD [OF infos(1)])
  obtain lps' ps' where prep: "preparePartiesFrom E (expectedWriteId (authoritativeSteps (game self)) - 1) infos 0 (length ids) ?blank ?ps =
      Some (0, lps', ps')" and m: "migrated ids (length ids) lps' ps'" and k: "length (parties lps') = length (parties ?lps)"
      "freeList ps' = freeList ?ps" "participantCapacity ps' = participantCapacity ?ps"
    using prepareParties_run [OF start, of "length ids" infos E "expectedWriteId (authoritativeSteps (game self)) - 1"]
      room infos ids len(1) by auto
  have data: "length (cbData (freeList ps')) = 64" using len(3) k(2) by (simp add: cbInvar_def)
  obtain fl where fl: "refillFreeList (clogMode E) infos (of_nat (length infos)) (participantCapacity ps') (freeList ps') = Some fl"
    "cbContents fl = unclaimed ids (unat (participantCapacity ps'))" "ringPool (unat (participantCapacity ps')) fl (unat ` set ids)"
    using refill_run [OF data _ infos(1) small, of "participantCapacity ps'" "clogMode E"] len(2) k(3) ids by auto
  let ?ps' = "ps'\<lparr>freeList := fl\<rparr>"
  let ?S = "self\<lparr>localParties := lps', game := (game self)\<lparr>gameParticipants := ?ps'\<rparr>\<rparr>"
  have run: "nimbleServerHostMigration E self infos (of_nat (length infos)) = Some (0, ?S)"
    using localPartiesReset_run [OF cap(1)] prep fl(1) small eqlen by (simp add: nimbleServerHostMigration_def)
  have facts: "sessionCore lps' ps'" "usedParties lps' = {0..<length ids}" "usedIds ps' = unat ` set ids"
    "\<forall>j < length ids. awaits lps' ps' j (ids ! j)" "\<forall>p \<in> set (parties lps'). lpTransportConnection p = None"
    using m by (auto simp: migrated_def)
  have "participantsShape ?ps' = participantsShape ps'" by (simp add: participantsShape_def)
  then have "sessionWf lps' ?ps'"
    using facts(1,3) fl(3) by (simp add: sessionCore_def sessionWf_def participantsWf_def)
  then have wf': "serverWf ?S" using k(1) facts(5) by (intro serverWf_parties [OF wf]) auto
  have aw: "\<forall>j < length ids. awaits lps' ?ps' j (ids ! j)" using facts(4) by (simp add: awaits_def)
  show ?thesis
    by (rule exI [of _ ?S], rule exI [of _ lps'], rule exI [of _ ?ps'])
      (use run wf' facts(2,3,5) aw fl(2) k(1,3) in simp)
qed

text \<open>The answer a waiting client gets when it comes back.\<close>

lemma awaits_answer:
  assumes "awaits lps ps j x" "refsValid n (lpReferences (parties lps ! j))"
  shows "joinAnswer secret (participants ps) (parties lps ! j) = \<lparr>jsPartyId = of_nat j, jsSessionSecret = secret,
    jsParticipantCount = 1, jsParticipants = [\<lparr>jpParticipantId = x, jpLocalIndex = 0\<rparr>]\<rparr>"
proof -
  obtain k where "participantReferences (lpReferences (parties lps ! j)) ! 0 = Some k" "k \<in> refIndices (lpReferences (parties lps ! j))"
    using assms unfolding refIndices_alt [OF assms(2)] by (auto simp: awaits_def refsValid_def)
  with assms(1) show ?thesis by (simp add: joinAnswer_def awaits_def Let_def)
qed

section \<open>Properties\<close>

text \<open>
  C11. Taking over a session whose parties have one participant each. A server in which nobody plays accepts
  the parties: each gets the place of its position and waits for its client, with its participant in the slot
  of its old id, waiting as well. No other party or participant is in use, the free list holds exactly the
  other ids in ascending order, and the server is well formed. The connections are left alone.
\<close>

theorem hostMigration_takes_over:
  assumes "idleServer self" "list_all2 infoFor infos ids" "distinct ids"
    and "\<forall>x \<in> set ids. unat x < unat (participantCapacity (gameParticipants (game self)))"
    and "length ids \<le> length (parties (localParties self))"
  shows "\<exists>self'. nimbleServerHostMigration E self infos (of_nat (length infos)) = Some (0, self') \<and> serverWf self' \<and>
    usedParties (localParties self') = {0..<length ids} \<and>
    usedIds (gameParticipants (game self')) = unat ` set ids \<and>
    (\<forall>j < length ids. awaits (localParties self') (gameParticipants (game self')) j (ids ! j)) \<and>
    cbContents (freeList (gameParticipants (game self'))) =
      filter (\<lambda>x. x \<notin> set ids) (map of_nat [0..<unat (participantCapacity (gameParticipants (game self)))]) \<and>
    transportConnections self' = transportConnections self"
  using hostMigration_run [OF assms, of E] by (auto simp: unclaimed_def)

lemma demoIdle: "\<exists>self :: demo NimbleServer. idleServer self \<and> length (parties (localParties self)) = 2 \<and>
    participantCapacity (gameParticipants (game self)) = 3"
  using start_run [OF demoMemory_ok demo_setup, of ClogFatal "DWorld 0 [] []" 0 0]
  by (auto simp: demoMemory_def demoServer_def)

theorem hostMigration_takes_over_witness:
  "\<exists>self self' :: demo NimbleServer. idleServer self \<and>
    nimbleServerHostMigration (demoEnv ClogFatal) self [\<lparr>piParticipantCount = 1, piParticipantIds = [2]\<rparr>,
      \<lparr>piParticipantCount = 1, piParticipantIds = [0]\<rparr>] 2 = Some (0, self') \<and>
    usedParties (localParties self') = {0, 1} \<and> cbContents (freeList (gameParticipants (game self'))) = [1]"
proof -
  let ?infos = "[\<lparr>piParticipantCount = 1, piParticipantIds = [2]\<rparr>, \<lparr>piParticipantCount = 1, piParticipantIds = [0]\<rparr>]"
  obtain self :: "demo NimbleServer" where s: "idleServer self" "length (parties (localParties self)) = 2"
    "participantCapacity (gameParticipants (game self)) = 3" using demoIdle by blast
  have "list_all2 infoFor ?infos [2, 0]" by (simp add: infoFor_def)
  from hostMigration_takes_over [OF s(1) this, of "demoEnv ClogFatal"] s(2,3)
  obtain self' where h: "nimbleServerHostMigration (demoEnv ClogFatal) self ?infos 2 = Some (0, self')"
    "usedParties (localParties self') = {0..<Suc (Suc 0)}"
    "cbContents (freeList (gameParticipants (game self'))) = filter (\<lambda>x. x \<notin> set [2, 0]) (map of_nat [0..<3])" by auto
  moreover have "{0..<Suc (Suc 0)} = {0, 1}" by auto
  moreover have "filter (\<lambda>x. x \<notin> set [2, 0]) (map of_nat [0..<3]) = [1 :: u8]" by (simp add: upt_rec)
  ultimately show ?thesis using s(1) by metis
qed

text \<open>
  C12. After a migration the clients come back. A client that asks for its old party, through any connection,
  gets it: the answer names the party and the participant with its old id, the connection serves the party,
  the party is in its normal state again, and the others go on waiting.
\<close>

theorem migrated_client_rejoins:
  assumes "idleServer self" "list_all2 infoFor infos ids" "distinct ids"
    and "\<forall>x \<in> set ids. unat x < unat (participantCapacity (gameParticipants (game self)))"
    and "length ids \<le> length (parties (localParties self))"
    and "nimbleServerHostMigration E self infos (of_nat (length infos)) = Some (r, self')"
    and "nimbleSerializeServerInJoinGameRequest E s = (e, jr, s1)" "0 \<le> e"
    and "jrJoinGameType jr = NimbleSerializeJoinGameTypePartySecret" "unat (jrPartyId jr) = j" "jrPlayerCount jr = 1"
    and "j < length ids" "i < 64"
  shows "\<exists>self''. nimbleServerReqGameJoin E self' i s out = Some (0, self'', s1,
      snd (nimbleSerializeServerOutJoinGameResponse E out \<lparr>jsPartyId = of_nat j, jsSessionSecret = sessionSecret self,
        jsParticipantCount = 1, jsParticipants = [\<lparr>jpParticipantId = ids ! j, jpLocalIndex = 0\<rparr>]\<rparr>)) \<and>
    serverWf self'' \<and> tcAssignedParty (transportConnections self'' ! i) = Some j \<and>
    lpTransportConnection (parties (localParties self'') ! j) = Some i \<and>
    lpState (parties (localParties self'') ! j) = NimbleServerLocalPartyStateNormal \<and>
    (\<forall>m < length ids. m \<noteq> j \<longrightarrow> awaits (localParties self'') (gameParticipants (game self'')) m (ids ! m))"
proof -
  obtain lps' ps' where self': "self' = self\<lparr>localParties := lps', game := (game self)\<lparr>gameParticipants := ps'\<rparr>\<rparr>"
    and wf: "serverWf self'" and used: "usedParties lps' = {0..<length ids}" and aw: "\<forall>j < length ids. awaits lps' ps' j (ids ! j)"
    and links: "\<forall>p \<in> set (parties lps'). lpTransportConnection p = None" "length (parties lps') = length (parties (localParties self))"
    using hostMigration_run [OF assms(1-5), of E] assms(6) by auto
  have lp: "localParties self' = lps'" "gameParticipants (game self') = ps'" "sessionSecret self' = sessionSecret self"
    by (simp_all add: self')
  have i: "i < length (transportConnections self')" using assms(13) serverWf_len [OF wf] by simp
  have j: "j < length (parties (localParties self'))" using assms(5,12) links(2) lp(1) by simp
  have none: "firstFrom (partySearched self' i) 0 (unat (partiesCount (localParties self'))) = None"
    using links(1) by (intro unserved) (auto simp: lp usedParties_def)
  have await: "awaits lps' ps' j (ids ! j)" using aw assms(12) by simp
  then have count: "participantReferenceCount (lpReferences (parties (localParties self') ! j)) = jrPlayerCount jr"
    using assms(11) by (simp add: awaits_def lp)
  have valid: "refsValid (length (participants ps')) (lpReferences (parties lps' ! j))"
    using serverWf_session [OF wf] j by (simp add: sessionWf_def partiesRefs_def lp)
  note rejoin = reqGameJoin_rejoins [OF wf i assms(7-10) none j count]
  let ?S = "partyAssigned (partyRejoined E self' i j) i j"
  have others: "awaits (localParties ?S) (gameParticipants (game ?S)) m (ids ! m)" if "m < length ids" "m \<noteq> j" for m
    using aw that by (simp add: awaits_def partyAssigned_def partyRejoined_def lp)
  show ?thesis
    by (rule exI [of _ ?S])
      (use rejoin others i j awaits_answer [OF await valid] lp in \<open>simp add: partyAssigned_def partyRejoined_def rejoined_fields\<close>)
qed

theorem migrated_client_rejoins_witness:
  "\<exists>self self' self'' :: demo NimbleServer. \<exists>s1 out'. nimbleServerHostMigration (demoEnv ClogFatal) self
      [\<lparr>piParticipantCount = 1, piParticipantIds = [2]\<rparr>] 1 = Some (0, self') \<and>
    nimbleServerReqGameJoin (demoEnv ClogFatal) self' 5 (demoInInit [1, 0, 1]) (demoOutInit 100) = Some (0, self'', s1, out') \<and>
    serverWf self'' \<and> tcAssignedParty (transportConnections self'' ! 5) = Some 0"
proof -
  let ?infos = "[\<lparr>piParticipantCount = 1, piParticipantIds = [2]\<rparr>]"
  obtain self :: "demo NimbleServer" where s: "idleServer self" "length (parties (localParties self)) = 2"
    "participantCapacity (gameParticipants (game self)) = 3" using demoIdle by blast
  have l: "list_all2 infoFor ?infos [2]" by (simp add: infoFor_def)
  have h: "\<forall>x \<in> set [2 :: u8]. unat x < unat (participantCapacity (gameParticipants (game self)))"
    "length [2 :: u8] \<le> length (parties (localParties self))" "distinct [2 :: u8]" using s(2,3) by simp_all
  obtain self' where m: "nimbleServerHostMigration (demoEnv ClogFatal) self ?infos (of_nat (length ?infos)) = Some (0, self')"
    using hostMigration_run [OF s(1) l h(3,1,2), of "demoEnv ClogFatal"] by blast
  from migrated_client_rejoins [OF s(1) l h(3,1,2) m demo_joinRequest [of ClogFatal 1 0], of 0 5 "demoOutInit 100"]
  obtain self'' out' where "nimbleServerReqGameJoin (demoEnv ClogFatal) self' 5 (demoInInit [1, 0, 1]) (demoOutInit 100) =
      Some (0, self'', (demoInInit [1, 0, 1])\<lparr>inPos := 3\<rparr>, out')" "serverWf self''" "tcAssignedParty (transportConnections self'' ! 5) = Some 0"
    by auto
  with m show ?thesis by fastforce
qed

end
