(* ===== verification/ServerLife.thy ===== *)
theory ServerLife
  imports HostMigration
begin

text \<open>
  The server over time: \<open>nimbleServerUpdate\<close> and the sequences of calls an application makes (\<open>src/src/lib/server.c\<close>).
  A running server is a step relation over the server and the world, with one rule per operation; every
  state it reaches from its start is well formed.
\<close>

section \<open>Specification\<close>

text \<open>
  How a server starts: initialised in fresh memory and given a game, or with the parties of another host
  in addition.
\<close>

inductive serverStarted :: "'x Env \<Rightarrow> 'x NimbleServer \<times> 'x \<Rightarrow> bool" for E :: "'x Env" where
  initialised: "serverMemory self0 \<Longrightarrow> acceptableSetup E su \<Longrightarrow> nimbleServerInit E self0 su w0 = Some (r, self1, w1) \<Longrightarrow>
    nimbleServerReInitWithGame E self1 stepId now w1 = Some (r', self2, w2) \<Longrightarrow> serverStarted E (self2, w2)"
| tookOver: "serverMemory self0 \<Longrightarrow> acceptableSetup E su \<Longrightarrow> nimbleServerInit E self0 su w0 = Some (r, self1, w1) \<Longrightarrow>
    nimbleServerReInitWithGame E self1 stepId now w1 = Some (r', self2, w2) \<Longrightarrow>
    list_all2 infoFor infos ids \<Longrightarrow> distinct ids \<Longrightarrow> \<forall>x \<in> set ids. unat x < unat (suMaxParticipantCount su) \<Longrightarrow>
    length ids \<le> unat (suMaxConnectionCount su) \<Longrightarrow>
    nimbleServerHostMigration E self2 infos (of_nat (length infos)) = Some (r'', self3) \<Longrightarrow> serverStarted E (self3, w2)"

text \<open>
  The calls made on a running server. Between them the world changes on its own: time passes and datagrams
  arrive.
\<close>

inductive serverStep :: "'x Env \<Rightarrow> 'x NimbleServer \<times> 'x \<Rightarrow> 'x NimbleServer \<times> 'x \<Rightarrow> bool" for E :: "'x Env" where
  feed: "nimbleServerFeed E self t octs send w = Some (r, self', w') \<Longrightarrow> serverStep E (self, w) (self', w')"
| update: "nimbleServerUpdate E self now w = Some (r, self', w') \<Longrightarrow> serverStep E (self, w) (self', w')"
| connected: "nimbleServerConnectionConnected self i = Some (r, self') \<Longrightarrow> serverStep E (self, w) (self', w)"
| outside: "serverStep E (self, w) (self, w')"

definition runningServer :: "'x Env \<Rightarrow> 'x NimbleServer \<times> 'x \<Rightarrow> bool" where
  "runningServer E z \<longleftrightarrow> feedLaws E \<and> onePlayerJoins E \<and> serverWf (fst z)"

definition startedServer :: "'x Env \<Rightarrow> 'x NimbleServer \<times> 'x \<Rightarrow> bool" where
  "startedServer E z \<longleftrightarrow> feedLaws E \<and> onePlayerJoins E \<and> serverStarted E z"

inductive_cases serverStepE: "serverStep E (self, w) z"

section \<open>Transition systems\<close>

text \<open>What holds initially and is kept by every step holds in every state that is reached.\<close>

locale invariant_system =
  fixes start :: "'s \<Rightarrow> bool"
    and step :: "'s \<Rightarrow> 's \<Rightarrow> bool"
    and invar :: "'s \<Rightarrow> bool"
  assumes start_invar: "start s \<Longrightarrow> invar s"
    and step_invar: "invar s \<Longrightarrow> step s s' \<Longrightarrow> invar s'"
begin

lemma run_invar: "step\<^sup>*\<^sup>* s s' \<Longrightarrow> invar s \<Longrightarrow> invar s'"
  by (induction rule: rtranclp_induct) (auto intro: step_invar)

lemma reachable_invar: "start s \<Longrightarrow> step\<^sup>*\<^sup>* s s' \<Longrightarrow> invar s'"
  using run_invar start_invar by blast

end

section \<open>Updating the server\<close>

lemma readDatagrams_keeps:
  assumes "feedLaws E" "onePlayerJoins E"
  shows "serverWf self \<Longrightarrow> readDatagrams E n self w = Some (r, self', w') \<Longrightarrow> serverWf self'"
proof (induction n arbitrary: self w)
  case (Suc n)
  then show ?case
    using feed_keeps [OF assms] by (auto simp: split_beta Let_def bind_eq_Some_conv split: if_splits) blast
qed simp

lemma readDatagrams_total:
  assumes laws: "feedLaws E" and plain: "plainJoins E"
  shows "serverWf self \<Longrightarrow> \<exists>r self' w'. readDatagrams E n self w = Some (r, self', w')"
proof (induction n arbitrary: self w)
  case (Suc n)
  obtain count conn data w1 where rcv: "multiTransportReceiveFrom E w (DATAGRAM_TRANSPORT_MAX_SIZE E) = (count, conn, data, w1)"
    by (metis prod.exhaust)
  obtain r self1 w2 where f: "nimbleServerFeed E self (word_of_int conn) (take (nat count) data)
      (sendOnlyToSpecifiedTransport E conn) w1 = Some (r, self1, w2)" "serverWf self1"
    using feed_total [OF laws plain Suc.prems] by blast
  from laws have "clogMode E = ClogOff" by (simp add: feedLaws_def)
  with rcv f(1) Suc.IH [OF f(2), of w2] show ?case by simp
qed simp

lemma updateQualityTick_total:
  "clogMode E = ClogOff \<Longrightarrow> \<exists>r q w'. nimbleServerUpdateQualityTick E w uq = Some (r, q, w')"
  by (simp add: nimbleServerUpdateQualityTick_def split_beta Let_def)

text \<open>The update in two stages: the quality of the host, then the parties and the datagrams.\<close>

lemma update_stages:
  assumes off: "clogMode E = ClogOff" and wf: "serverWf self"
  obtains (stops) q r w1 where "r < 0" "nimbleServerUpdate E self now w = Some (r, self\<lparr>updateQuality := q\<rparr>, w1)"
    | (runs) self2 w1 where "serverWf self2" "nimbleServerUpdate E self now w = do {
        (_, self3, w2) \<leftarrow> readDatagrams E 64 self2 w1;
        Some (0, self3\<lparr>authoritativeStepsPerSecondStat := statsIntPerSecondUpdate E (authoritativeStepsPerSecondStat self3) now,
                      statsCounter := statsCounter self3 + 1\<rparr>, w2) }"
proof -
  obtain r q w1 where uq: "nimbleServerUpdateQualityTick E w (updateQuality self) = Some (r, q, w1)"
    using updateQualityTick_total [OF off] by blast
  show ?thesis
  proof (cases "r < 0")
    case True
    with uq show ?thesis by (intro stops) (simp_all add: nimbleServerUpdate_def)
  next
    case False
    have "serverWf (self\<lparr>updateQuality := q\<rparr>)" using wf by simp
    from tickParties_run [OF this] obtain self2 where "tickParties ClogOff (self\<lparr>updateQuality := q\<rparr>) = Some self2" "serverWf self2"
      by blast
    with False uq off show ?thesis
      by (intro runs) (simp_all add: nimbleServerUpdate_def nimbleServerReadFromMultiTransport_def)
  qed
qed

lemma update_keeps:
  assumes laws: "feedLaws E" "onePlayerJoins E" and wf: "serverWf self"
    and run: "nimbleServerUpdate E self now w = Some (r, self', w')"
  shows "serverWf self'"
proof -
  have off: "clogMode E = ClogOff" using laws by (simp add: feedLaws_def)
  from off wf show ?thesis
  proof (cases rule: update_stages [of E self now w])
    case (stops q r' w1)
    with run wf show ?thesis by auto
  next
    case (runs self2 w1)
    with run readDatagrams_keeps [OF laws runs(1)] show ?thesis by (auto simp: bind_eq_Some_conv)
  qed
qed

lemma connected_keeps:
  assumes "serverWf self" "nimbleServerConnectionConnected self i = Some (r, self')"
  shows "serverWf self'"
proof -
  have "unat i < 64" using assms serverWf_len [OF assms(1)]
    by (auto simp: nimbleServerConnectionConnected_def readAt_def split: if_splits)
  with assms serverWf_set [OF assms(1), of "unat i"] serverWf_len [OF assms(1)] show ?thesis
    by (auto simp: nimbleServerConnectionConnected_def sameIdentity_def split: if_splits)
qed

section \<open>The running server\<close>

lemma started_wf: "serverStarted E z \<Longrightarrow> serverWf (fst z)"
proof (induction rule: serverStarted.induct)
  case (initialised self0 su w0 r self1 w1 stepId now r' self2 w2)
  with start_run [OF initialised(1,2), of w0 stepId now] show ?case by (auto simp: idleServer_def)
next
  case (tookOver self0 su w0 r self1 w1 stepId now r' self2 w2 infos ids r'' self3)
  from start_run [OF tookOver(1,2), of w0 stepId now] tookOver(3,4)
  have "idleServer self2" "length (parties (localParties self2)) = unat (suMaxConnectionCount su)"
    "participantCapacity (gameParticipants (game self2)) = suMaxParticipantCount su" by auto
  with hostMigration_run [of self2 infos ids E] tookOver(5-9) show ?case by auto
qed

lemma step_running:
  assumes "runningServer E z" "serverStep E z z'"
  shows "runningServer E z'"
  using assms
  by (cases z) (auto simp: runningServer_def elim!: serverStepE intro: feed_keeps update_keeps connected_keeps)

interpretation life: invariant_system "startedServer E" "serverStep E" "runningServer E" for E :: "'x Env"
proof unfold_locales
  show "runningServer E z" if "startedServer E z" for z
    using that started_wf [of E z] by (simp add: startedServer_def runningServer_def)
  show "runningServer E z'" if "runningServer E z" "serverStep E z z'" for z z'
    using that by (rule step_running)
qed

text \<open>Parties that are taken out of use without the counter.\<close>

lemma disconnected_run:
  assumes wf: "serverWf self" and j: "unat i \<in> usedParties (localParties self)"
  shows "\<exists>self'. nimbleServerConnectionDisconnected c self i = Some (0, self') \<and> game self' = game self \<and>
    usedParties (localParties self') = usedParties (localParties self) - {unat i} \<and>
    partiesCount (localParties self') = partiesCount (localParties self)"
proof -
  let ?lps = "localParties self"
  have shape: "partiesShape ?lps" using serverWf_session [OF wf] by (simp add: sessionWf_def)
  have len: "unat i < length (parties ?lps)" and used: "lpIsUsed (parties ?lps ! unat i)" using j by (auto simp: usedParties_def)
  have i: "unat i < length (transportConnections self)"
    using len shape serverWf_len [OF wf] by (simp add: partiesShape_def word_le_nat_alt)
  have range: "\<not> (ucast i \<ge> capacityCount ?lps)" using len shape by (simp add: partiesShape_def word_le_nat_alt unsigned_ucast_eq)
  then have find: "nimbleServerLocalPartiesFindParty c ?lps i = Some (unat i)" by (simp add: nimbleServerLocalPartiesFindParty_def)
  show ?thesis
    using find len used i usedParties_set [OF len, of "(parties ?lps ! unat i)\<lparr>lpId := 0xff, lpIsUsed := False\<rparr>"]
    by (simp add: nimbleServerConnectionDisconnected_def setConnection_def)
qed

lemma stale_counter:
  assumes "serverWf self" "partiesCount (localParties self') = partiesCount (localParties self)"
    "usedParties (localParties self') \<subset> usedParties (localParties self)"
  shows "card (usedParties (localParties self')) < unat (partiesCount (localParties self'))" "\<not> serverWf self'"
proof -
  have "unat (partiesCount (localParties self)) = card (usedParties (localParties self))"
    using serverWf_session [OF assms(1)] by (simp add: sessionWf_def partiesShape_def)
  with assms(2) psubset_card_mono [OF _ assms(3)]
  show less: "card (usedParties (localParties self')) < unat (partiesCount (localParties self'))" by simp
  then show "\<not> serverWf self'" using serverWf_session [of self'] by (auto simp: sessionWf_def partiesShape_def)
qed

section \<open>Properties\<close>




lemma plain_started: "\<exists>self w. serverStarted plainEnv (self, w)"
proof -
  have "acceptableSetup plainEnv (serverSetup demoMemory)"
    using demo_setup [of ClogOff] by (simp add: acceptableSetup_def plainEnv_def)
  from start_run [OF demoMemory_ok this, of "DWorld 0 [] []" 0 0] demoMemory_ok this show ?thesis
    by (blast intro: serverStarted.initialised)
qed


text \<open>
  C36. Two operations take parties out of use and leave them in the counter: the notification that a
  connection was lost, which takes the index of the connection for the id of a party and leaves its
  participants in the game, and a new game on a server that still has parties. After either, the counter
  exceeds the number of parties in use and the server is not well formed.
\<close>

theorem party_counter_goes_stale:
  assumes "serverWf self" "unat i \<in> usedParties (localParties self)"
    and "0 < suMaxParticipantCount (serverSetup self)" "suMaxParticipantCount (serverSetup self) < 64"
  shows "\<exists>lost renewed w'. nimbleServerConnectionDisconnected c self i = Some (0, lost) \<and>
    nimbleServerReInitWithGame E self stepId now w = Some (0, renewed, w') \<and>
    game lost = game self \<and> unat i \<notin> usedParties (localParties lost) \<and> usedParties (localParties renewed) = {} \<and>
    (\<forall>self' \<in> {lost, renewed}. partiesCount (localParties self') = partiesCount (localParties self) \<and>
       card (usedParties (localParties self')) < unat (partiesCount (localParties self')) \<and> \<not> serverWf self')"
proof -
  obtain lost where l: "nimbleServerConnectionDisconnected c self i = Some (0, lost)" "game lost = game self"
    "usedParties (localParties lost) = usedParties (localParties self) - {unat i}"
    "partiesCount (localParties lost) = partiesCount (localParties self)"
    using disconnected_run [OF assms(1,2), of c] by blast
  have data: "length (cbData (freeList (gameParticipants (game self)))) = 64"
    using serverWf_session [OF assms(1)] by (simp add: sessionWf_def participantsWf_def idPool_def cbInvar_def)
  have cap: "length (parties (localParties self)) = unat (capacityCount (localParties self))"
    using serverWf_session [OF assms(1)] by (simp add: sessionWf_def partiesShape_def)
  obtain renewed w' where r: "nimbleServerReInitWithGame E self stepId now w = Some (0, renewed, w')"
    "localParties renewed = (localParties self)\<lparr>parties := map nimbleServerLocalPartyReset (parties (localParties self))\<rparr>"
    using reInit_run [OF data assms(3,4) cap, of E stepId now w] by auto
  have u: "usedParties (localParties renewed) = {}" "partiesCount (localParties renewed) = partiesCount (localParties self)"
    by (auto simp: r(2) usedParties_def nimbleServerLocalPartyReset_def)
  have sub: "usedParties (localParties lost) \<subset> usedParties (localParties self)" "usedParties (localParties renewed) \<subset> usedParties (localParties self)"
    using assms(2) l(3) u(1) by auto
  show ?thesis
    using l r(1) u stale_counter [OF assms(1) l(4) sub(1)] stale_counter [OF assms(1) u(2) sub(2)]
    by (intro exI [of _ lost] exI [of _ renewed] exI [of _ w']) auto
qed

theorem party_counter_goes_stale_witness:
  "\<exists>(lps :: demo NimbleServerLocalParties) ps lost. serverWf (demoServer lps ps) \<and>
    nimbleServerConnectionDisconnected ClogFatal (demoServer lps ps) 0 = Some (0, lost) \<and> \<not> serverWf lost"
proof -
  obtain lps :: "demo NimbleServerLocalParties" and ps where s: "serverWf (demoServer lps ps)" "usedParties lps = {0}"
    using demoParties by blast
  have "unat (0 :: u8) \<in> usedParties (localParties (demoServer lps ps))"
    "0 < suMaxParticipantCount (serverSetup (demoServer lps ps))" "suMaxParticipantCount (serverSetup (demoServer lps ps)) < 64"
    using s(2) by (simp_all add: demoServer_def)
  from party_counter_goes_stale [OF s(1) this, of ClogFatal "demoEnv ClogFatal" 0 0 "DWorld 0 [] []"] s(1) show ?thesis by blast
qed

end
