(* ===== verification/Spec2Isabelle.thy ===== *)
theory Spec2Isabelle
  imports CircularBuffer ConnectionQuality GameState UpdateQuality Participants ServerLife
begin

text \<open>
  A verification of the Nimble server library: the C code under \<open>src/src/lib\<close> and \<open>src/src/include/nimble-server\<close>
  that collects the predicted steps of the players of a game, weaves them into authoritative steps and
  sends these back, lets clients connect, join, rejoin and download the state of the game, and can take over
  the session of another host.

  \<^bold>\<open>How the code is modelled.\<close> A structure is a record, an enumeration a datatype, an array a list, a
  pointer into an array of the server a position in it, and \<open>size_t\<close>, \<open>uint8_t\<close> and \<open>StepId\<close> are words of
  64, 8 and 32 bits. A function that changes what its arguments point to returns the new values. A call
  that cannot go wrong is a plain function; the others return an option, where \<open>None\<close> is a run with no defined
  result: an access out of range, a pointer that was never set, or a stop in a diagnostic. The error
  codes of the code are the negative integers it returns. \<open>CLOG_ERROR\<close> and \<open>CLOG_ASSERT\<close> end the process in
  the build \<open>ClogFatal\<close> and do nothing in the build \<open>ClogOff\<close>; messages have no other effect and are left
  out. A \<open>for\<close> loop is structural recursion, \<open>runAll\<close> over the indices or a search (\<open>firstFrom\<close>). Two loops
  have no bound in the code: the composition of steps and the commands of a datagram. They are
  \<open>partial_function (option)\<close>, and that they return is proved (C14, C2), so no fuel is needed.

  \<^bold>\<open>What is not in the repository.\<close> The libraries for streams, step buffers, serialization, ordered datagrams,
  blob streams, statistics, memory, time, random numbers and the transport, and the callback of the
  application, are the fields of the record \<open>Env\<close> of \<open>Externals\<close>, an argument of every definition that uses
  them. Their state and the outside world have the type \<open>'x\<close>, of which nothing is known. What a theorem
  needs of them is a named hypothesis on \<open>Env\<close>: \<open>stepReadLaw\<close> and \<open>convertLaw\<close>
  (together \<open>composeLaws\<close>), with \<open>stepWriteLaw\<close>, \<open>stepDiscardLaw\<close> and \<open>pendingRangesLaw\<close> \<open>stepLaws\<close>, and with \<open>inStreamLaw\<close>,
  \<open>serializeLaw\<close> and \<open>allocLaw\<close> \<open>feedLaws\<close>; \<open>outStreamLaw\<close> is about writing and \<open>lateClock\<close> and its kin about time. \<open>DemoEnv\<close> is one environment that satisfies them all; only witnesses use it.

  \<^bold>\<open>The theories, from the bottom up.\<close>

  \<^item> \<open>Prelude\<close>: the run monad, reading and writing an array at an index, diagnostics, loops, searches, and
    facts on words. \<open>Externals\<close>, \<open>DemoEnv\<close>: the libraries, see above.
  \<^item> \<open>CircularBuffer\<close> (\<open>circular_buffer.c\<close>): the ring of free ids. It is shown to implement a bounded queue
    (locale \<open>bounded_fifo\<close>) and, with distinct ids, a pool (locale \<open>id_pool\<close>): C17; what a write to a full
    ring does is C40.
  \<^item> \<open>ConnectionQuality\<close> (\<open>connection_quality.c\<close>, \<open>delayed_quality.c\<close>): when a party counts as lost: the verdict as a
    function of the history of steps (C19), and the delay of 180 ticks from both sides (C31, C32).
  \<^item> \<open>UpdateQuality\<close> (\<open>update_quality.c\<close>): a host that is always late stops, a punctual one never does (C24, C33).
  \<^item> \<open>GameState\<close> (\<open>game_state.c\<close>): the copy of the application's state a connection offers (C35).
  \<^item> \<open>Participants\<close> (\<open>participant.c\<close>, \<open>participants.c\<close>, \<open>participant_references.c\<close>): the slots of the players; the free
    list, the counter and the slots agree in every history (C18, C20, C34).
  \<^item> \<open>LocalParty\<close> (\<open>local_party.c\<close>): the participants of one client: its life when the client falls silent (C22),
    and that reading its steps touches nothing else (C29).
  \<^item> \<open>TransportConnection\<close> (\<open>game.c\<close>, \<open>transport_connection.c\<close>, \<open>transport_connection_stats.c\<close>): definitions only.
  \<^item> \<open>LocalParties\<close> (\<open>local_parties.c\<close>): the array of parties. \<open>sessionWf\<close> is the joint invariant of parties and
    participants: each party in use owns its participants, and they point back to it (C21).
  \<^item> \<open>AuthoritativeSteps\<close> (\<open>authoritative_steps.c\<close>) and \<open>Composition\<close>: composing steps. A composed step is the
    encoding of what each participant did, and decodes to it (C10, C13); when a step is composed
    (C15); the loop ends (C14); the participants move on (C16); the assertion that fails when someone
    leaves (C38).
  \<^item> \<open>ReqStep\<close> (\<open>req_step.c\<close>, \<open>incoming_predicted_steps.c\<close>, \<open>send_authoritative_steps.c\<close>): a step request keeps the
    session and the window of steps (C9), and where the next ranges continue (C30).
  \<^item> \<open>ReqGameState\<close> (\<open>req_game_state.c\<close>, \<open>req_game_state_ack.c\<close>): the download of the state (C23, C28).
  \<^item> \<open>ReqConnect\<close> (\<open>req_connect.c\<close>, and the structure of the server from \<open>server.h\<close>): C8, C26.
  \<^item> \<open>ReqJoin\<close> (\<open>req_game_join.c\<close>): joining, joining twice, rejoining, and the rejoin without a defined result
    (C6, C27, C7, C39). \<open>serverWf\<close> is the invariant of the whole server: 64 connections with their positions as
    ids, a free list of positions, \<open>sessionWf\<close>, and links between parties and connections that stay in range.
  \<^item> \<open>Server\<close> (\<open>server.c\<close>): the tick, the dispatch of datagrams, the update, initialisation, host migration
    and the notifications of the transport; definitions only.
  \<^item> \<open>ServerTick\<close>: a tick dissolves exactly the parties that are lost, marks their participants as leaving
    and frees their connections (C5).
  \<^item> \<open>ServerFeed\<close>: every handler keeps \<open>serverWf\<close> and moves forward in the datagram, so handling a datagram ends
    (locales \<open>command_loop\<close> and \<open>command_loop_total\<close>, interpreted on \<open>feedLoop\<close>; C2); which datagrams are refused
    (C25); a refused join is not answered (C37).
  \<^item> \<open>ServerStart\<close>: initialisation establishes \<open>serverWf\<close> (C4). \<open>HostMigration\<close>: taking over a session, after
    which each client gets its party and participant back (C11, C12).
  \<^item> \<open>ServerLife\<close>: the update (C3), and the running server as a step relation \<open>serverStep\<close>: every state
    reached from a start is well formed (locale \<open>invariant_system\<close>; C1). The operations that leave the counter
    of parties stale, and are therefore not steps of that relation, are C36.

  \<^bold>\<open>How the parts meet.\<close> A datagram comes in through \<open>nimbleServerUpdate\<close>, which reads at most 64 of them per
  tick, or directly through \<open>nimbleServerFeed\<close>. Its commands go to the four request handlers, which share the
  connections, the parties and the participants of the server; a handler gets the position of its connection,
  so that it and its caller see the same one. The tick works on the same parties and gives connections back
  to the ring from which the connect handler takes them.

  \<^bold>\<open>Scope of the theorems about the server.\<close> C1, C2 and C3 are about the build \<open>ClogOff\<close>: in the other build a
  participant who leaves stops the process (C38). They ask that a join is for one player, the only
  number the code supports. That every datagram is handled also needs that no client rejoins: a rejoin with a
  wrong party or number of players has no defined result (C39). The capacity for participants is below 64, as
  \<open>nimbleServerParticipantsInit\<close> asserts, and the one for parties at most 64, as \<open>nimbleServerInit\<close> checks.

  \<^bold>\<open>Not modelled.\<close> \<open>participant_connection.c\<close> and \<open>forced_step.c\<close> are not in the library that
  \<open>CMakeLists.txt\<close> builds, and the header with their structure is not in the repository. \<open>examples\<close> sets up a
  socket around functions the library does not have. \<open>tests\<close> and the prototypes in headers have no behaviour of
  their own. Left out of modelled files: messages and the functions that only produce them
  (\<open>nimbleServerConnectionQualityDescribe\<close>, \<open>showStats\<close>, \<open>nimbleServerGameShowReport\<close>), the allocators, and code
  that is compiled out.
\<close>

end
